theory Spec2Isabelle
  imports Complex_Main "HOL-Library.Word"
begin

section \<open>Conventions of the embedding\<close>

text \<open>
  The theory embeds \<^verbatim>\<open>src/los_sampler.cpp\<close> and the parts of \<^verbatim>\<open>src/data.cpp\<close> that
  build the inverse-CDF table and the noisy magnitudes.

  \<^item> A C++ \<^verbatim>\<open>double\<close> is a \<^typ>\<open>real\<close>; NaN and the infinities are not values of the
    model.  In the line integral every arithmetic operation on doubles is the exact
    operation followed by the rounding \<open>rnd\<close> of the machine, a parameter of the model;
    \<open>round_double\<close> below is the rounding to nearest, ties to even, of IEEE 754 binary64.
    The comparisons of doubles are exact.  The other functions compute in the reals; the
    one place where the source returns an infinity on purpose (the rejection value of the
    log-posterior) and the results of \<^verbatim>\<open>log\<close> on a non-positive argument are values of the
    type \<open>lnp\<close> below.
  \<^item> Grid sizes, array lengths and loop counters are \<^typ>\<open>nat\<close> or \<^typ>\<open>int\<close>.  The
    conversion \<^verbatim>\<open>(int)\<close> of a \<^verbatim>\<open>double\<close> truncates towards zero and is undefined when the
    truncated value is not an \<^verbatim>\<open>int\<close> of 32 bits: the error \<open>CastOverflow\<close>.  Where the
    source computes with \<^verbatim>\<open>unsigned int\<close> in a way that can wrap, the wrap is in the model:
    the step counts of the driver are products in \<^typ>\<open>32 word\<close>, and the \<^verbatim>\<open>i-1\<close> of the
    inverse table is taken modulo \<open>2\<^sup>3\<^sup>2\<close>.
  \<^item> Every pointer is an address into an explicit heap or \<open>None\<close> for \<^verbatim>\<open>NULL\<close>;
    \<^verbatim>\<open>delete\<close> removes the cell and leaves every pointer to it as it was.
  \<^item> A failed assertion, a read through a null or dangling pointer, an index out of range,
    a read of a variable that was never assigned, an undefined conversion and a division
    of doubles by zero (whose result is an infinity or a NaN) are values of the type
    \<open>error\<close>.
\<close>

datatype error =
    NullPointer
  | DanglingPointer
  | ArrayIndex
  | MatIndex
  | DivideByZero
  | AssertFailed
  | Uninitialised
  | CastOverflow
  | NonFinite

type_synonym addr = nat

section \<open>Data model\<close>

text \<open>
  Modelled from the spec: the declaration of \<^verbatim>\<open>TRect\<close> is missing from the sources; the
  code reads the fields \<^verbatim>\<open>min[2]\<close>, \<^verbatim>\<open>max[2]\<close>, \<^verbatim>\<open>N_bins[2]\<close> and \<^verbatim>\<open>dx[2]\<close>.
  Index 0 of each array is the first component of the pair, index 1 the second.
\<close>

record TRect =
  min_r :: "real \<times> real"
  max_r :: "real \<times> real"
  N_bins :: "nat \<times> nat"
  dx :: "real \<times> real"


text \<open>
  A \<^verbatim>\<open>cv::Mat\<close> of doubles: its shape and its elements in row-major order.
  \<^verbatim>\<open>new cv::Mat\<close> gives the empty matrix.  \<^verbatim>\<open>at<double>(x, y)\<close> reads row \<open>x\<close>, column \<open>y\<close>;
  an index outside the shape is the error \<open>MatIndex\<close>.
\<close>

record Mat =
  rows :: nat
  cols :: nat
  data :: "real list"

definition empty_Mat :: Mat where
  "empty_Mat = \<lparr>rows = 0, cols = 0, data = []\<rparr>"

definition at_double :: "Mat \<Rightarrow> int \<Rightarrow> int \<Rightarrow> error + real" where
  "at_double m x y =
     (if 0 \<le> x \<and> x < int (rows m) \<and> 0 \<le> y \<and> y < int (cols m)
        \<and> nat x * cols m + nat y < length (data m)
      then Inr (data m ! (nat x * cols m + nat y))
      else Inl MatIndex)"

record heap =
  rects :: "addr \<rightharpoonup> TRect"
  mats :: "addr \<rightharpoonup> Mat"
  next_free :: addr

definition empty_heap :: heap where
  "empty_heap = \<lparr>rects = Map.empty, mats = Map.empty, next_free = 0\<rparr>"

definition new_Mat :: "heap \<Rightarrow> addr \<times> heap" where
  "new_Mat h =
     (next_free h,
      h\<lparr>mats := (mats h)(next_free h \<mapsto> empty_Mat), next_free := Suc (next_free h)\<rparr>)"

definition new_TRect :: "TRect \<Rightarrow> heap \<Rightarrow> addr \<times> heap" where
  "new_TRect r h =
     (next_free h,
      h\<lparr>rects := (rects h)(next_free h \<mapsto> r), next_free := Suc (next_free h)\<rparr>)"

definition delete_Mat :: "addr \<Rightarrow> heap \<Rightarrow> heap" where
  "delete_Mat a h = h\<lparr>mats := (mats h)(a := None)\<rparr>"

definition delete_TRect :: "addr \<Rightarrow> heap \<Rightarrow> heap" where
  "delete_TRect a h = h\<lparr>rects := (rects h)(a := None)\<rparr>"

text \<open>
  \<^verbatim>\<open>TImgStack\<close>: the number of images, the array of \<^verbatim>\<open>cv::Mat*\<close> (one slot per image,
  \<open>None\<close> for a \<^verbatim>\<open>NULL\<close> slot) and the \<^verbatim>\<open>TRect*\<close>.  Every constructor and every mutator
  allocates the array with exactly \<open>N_images\<close> slots.
\<close>

record TImgStack =
  N_images :: nat
  img :: "addr option list"
  rect :: "addr option"

section \<open>TImgStack: the constructors, set-rect and resize\<close>

text \<open>\<^verbatim>\<open>for(i < N_images) { img[i] = new cv::Mat; }\<close>\<close>

fun alloc_imgs :: "nat \<Rightarrow> heap \<Rightarrow> addr option list \<times> heap" where
  "alloc_imgs 0 h = ([], h)"
| "alloc_imgs (Suc n) h =
     (case new_Mat h of (a, h') \<Rightarrow>
        (case alloc_imgs n h' of (as, h'') \<Rightarrow> (Some a # as, h'')))"

text \<open>\<^verbatim>\<open>for(i < N_images) { if(img[i] != NULL) { delete img[i]; } }\<close>\<close>

fun delete_imgs :: "addr option list \<Rightarrow> heap \<Rightarrow> heap" where
  "delete_imgs [] h = h"
| "delete_imgs (None # ps) h = delete_imgs ps h"
| "delete_imgs (Some a # ps) h = delete_imgs ps (delete_Mat a h)"

text \<open>\<^verbatim>\<open>TImgStack::TImgStack(size_t _N_images)\<close>: \<open>N\<close> empty images, \<^verbatim>\<open>rect = NULL\<close>.\<close>

definition TImgStack_new :: "nat \<Rightarrow> heap \<Rightarrow> TImgStack \<times> heap" where
  "TImgStack_new n h =
     (case alloc_imgs n h of (as, h') \<Rightarrow>
        (\<lparr>N_images = n, img = as, rect = None\<rparr>, h'))"

text \<open>
  \<^verbatim>\<open>TImgStack::TImgStack(size_t _N_images, TRect& _rect)\<close>: \<open>N\<close> null slots and a copy of
  the rectangle.
\<close>

definition TImgStack_new_rect :: "nat \<Rightarrow> TRect \<Rightarrow> heap \<Rightarrow> TImgStack \<times> heap" where
  "TImgStack_new_rect n r h =
     (case new_TRect r h of (a, h') \<Rightarrow>
        (\<lparr>N_images = n, img = replicate n None, rect = Some a\<rparr>, h'))"

text \<open>
  \<^verbatim>\<open>TImgStack::set_rect\<close>: allocates a copy when \<^verbatim>\<open>rect == NULL\<close>, otherwise assigns
  through the pointer; the assignment through a pointer whose cell was deleted is the
  error \<open>DanglingPointer\<close>.
\<close>

definition set_rect :: "TRect \<Rightarrow> TImgStack \<times> heap \<Rightarrow> error + TImgStack \<times> heap" where
  "set_rect r sh =
     (case sh of (s, h) \<Rightarrow>
        (case rect s of
           None \<Rightarrow> (case new_TRect r h of (a, h') \<Rightarrow> Inr (s\<lparr>rect := Some a\<rparr>, h'))
         | Some a \<Rightarrow>
             (if a \<in> dom (rects h) then Inr (s, h\<lparr>rects := (rects h)(a \<mapsto> r)\<rparr>)
              else Inl DanglingPointer)))"

text \<open>
  \<^verbatim>\<open>TImgStack::resize\<close>: deletes every non-null image, deletes the rectangle when the
  pointer is not \<^verbatim>\<open>NULL\<close>, then allocates \<open>_N_images\<close> new empty images.  The source
  assigns \<^verbatim>\<open>N_images\<close> and \<^verbatim>\<open>img\<close> and nothing else: the field \<^verbatim>\<open>rect\<close> keeps its value.
\<close>

definition resize :: "nat \<Rightarrow> TImgStack \<times> heap \<Rightarrow> TImgStack \<times> heap" where
  "resize n sh =
     (case sh of (s, h) \<Rightarrow>
        (let h1 = delete_imgs (img s) h;
             h2 = (case rect s of None \<Rightarrow> h1 | Some a \<Rightarrow> delete_TRect a h1)
         in (case alloc_imgs n h2 of (as, h3) \<Rightarrow>
               (s\<lparr>N_images := n, img := as\<rparr>, h3))))"

text \<open>Reading the rectangle of a stack, as every \<^verbatim>\<open>img_stack.rect->...\<close> does.\<close>

definition rect_of :: "heap \<Rightarrow> TImgStack \<Rightarrow> error + TRect" where
  "rect_of h s =
     (case rect s of
        None \<Rightarrow> Inl NullPointer
      | Some a \<Rightarrow> (case rects h a of None \<Rightarrow> Inl DanglingPointer | Some r \<Rightarrow> Inr r))"

section \<open>The rounding of double arithmetic\<close>

text \<open>
  IEEE 754 binary64, rounding to nearest, ties to even.  The doubles around a real \<open>x\<close>
  are the integer multiples of the quantum of \<open>x\<close>: \<open>2\<^sup>e\<^sup>-\<^sup>5\<^sup>2\<close> for
  \<open>2\<^sup>e \<le> |x| < 2\<^sup>e\<^sup>+\<^sup>1\<close>, and never less than \<open>2\<^sup>-\<^sup>1\<^sup>0\<^sup>7\<^sup>4\<close>, the spacing of the subnormal numbers.
  \<open>round_double x\<close> is the multiple nearest to \<open>x\<close>, the even one of two that are equally
  near.  Beyond the largest double, \<open>double_max\<close>, the machine has an infinity and the
  model has not; a statement that depends on the values of the arithmetic bounds them.
\<close>

definition round_half_even :: "real \<Rightarrow> int" where
  "round_half_even m =
     (let f = \<lfloor>m\<rfloor>; d = m - real_of_int f
      in if d < 1 / 2 then f else if 1 / 2 < d then f + 1 else if even f then f else f + 1)"

text \<open>For \<open>x \<ge> 1\<close> and \<open>q\<close> the quantum of \<open>[1, 2)\<close>: \<open>q\<close> doubled once per halving of \<open>x\<close>.\<close>

function scale_up :: "real \<Rightarrow> real \<Rightarrow> real" where
  "scale_up x q = (if 2 \<le> x then scale_up (x / 2) (2 * q) else q)"
  by pat_completeness auto
termination
proof (relation "measure (\<lambda>(x, q). nat \<lfloor>x\<rfloor>)")
  show "wf (measure (\<lambda>(x, q). nat \<lfloor>x\<rfloor>))" by simp
next
  fix x q :: real
  assume "2 \<le> x"
  then have "\<lfloor>x / 2\<rfloor> < \<lfloor>x\<rfloor>" and "0 < \<lfloor>x\<rfloor>" by linarith+
  then show "((x / 2, 2 * q), (x, q)) \<in> measure (\<lambda>(x, q). nat \<lfloor>x\<rfloor>)" by simp
qed

text \<open>
  For \<open>0 < x < 1\<close>: \<open>q\<close> halved once per doubling of \<open>x\<close>, at most 1022 times (the
  exponent of a double is at least \<open>-1022\<close>).
\<close>

function scale_down :: "real \<Rightarrow> real \<Rightarrow> nat \<Rightarrow> real" where
  "scale_down x q k =
     (if 0 < x \<and> x < 1 \<and> k < 1022 then scale_down (2 * x) (q / 2) (Suc k) else q)"
  by pat_completeness auto
termination
  by (relation "measure (\<lambda>(x, q, k). 1022 - k)") auto

definition double_unit :: real where
  "double_unit = 1 / 2 ^ 52"



definition quantum :: "real \<Rightarrow> real" where
  "quantum x =
     (if 1 \<le> \<bar>x\<bar> then scale_up \<bar>x\<bar> double_unit else scale_down \<bar>x\<bar> double_unit 0)"

definition round_double :: "real \<Rightarrow> real" where
  "round_double x = real_of_int (round_half_even (x / quantum x)) * quantum x"


section \<open>The line integral\<close>

text \<open>
  The conversion \<^verbatim>\<open>(int)v\<close> of a \<^verbatim>\<open>double\<close>: truncation towards zero, undefined when the
  truncated value is outside the 32-bit \<^verbatim>\<open>int\<close>.
\<close>

definition to_int :: "real \<Rightarrow> error + int" where
  "to_int v =
     (let t = (if 0 \<le> v then \<lfloor>v\<rfloor> else \<lceil>v\<rceil>)
      in if - 2147483648 \<le> t \<and> t \<le> 2147483647 then Inr t else Inl CastOverflow)"

text \<open>\<^verbatim>\<open>img_stack.img[k]->at<double>(x, y)\<close>\<close>

definition img_at :: "heap \<Rightarrow> TImgStack \<Rightarrow> nat \<Rightarrow> int \<Rightarrow> int \<Rightarrow> error + real" where
  "img_at h s k x y =
     (if k < length (img s) then
        (case img s ! k of
           None \<Rightarrow> Inl NullPointer
         | Some a \<Rightarrow>
             (case mats h a of None \<Rightarrow> Inl DanglingPointer | Some m \<Rightarrow> at_double m x y))
      else Inl ArrayIndex)"

text \<open>
  The local variables of \<^verbatim>\<open>los_integral\<close> that its loops change.  \<^verbatim>\<open>y_floor\<close> and
  \<^verbatim>\<open>y_ceil\<close> are declared without a value: \<open>None\<close> until the first assignment.
\<close>

record los_vars =
  los_x :: int
  los_y :: real
  los_y_floor :: "real option"
  los_y_ceil :: "real option"
  los_ret :: "real list"

text \<open>
  The innermost loop,
  \<^verbatim>\<open>for(k < N_images) ret[k] += (y_ceil - y) * img[k]->at(x, (int)y_floor)
                                 + (y - y_floor) * img[k]->at(x, (int)y_ceil);\<close>
  \<open>iyf\<close> and \<open>iyc\<close> are \<^verbatim>\<open>(int)y_floor\<close> and \<^verbatim>\<open>(int)y_ceil\<close>: the two tests before the loop
  have converted the same two values.  Each of the six operations rounds.
\<close>

function add_samples ::
  "(real \<Rightarrow> real) \<Rightarrow> heap \<Rightarrow> TImgStack \<Rightarrow> int \<Rightarrow> real \<Rightarrow> real \<Rightarrow> real \<Rightarrow> int \<Rightarrow> int \<Rightarrow> nat
     \<Rightarrow> real list \<Rightarrow> error + real list"
where
  "add_samples rnd h s x y yf yc iyf iyc k out =
     (if k < N_images s then
        (case img_at h s k x iyf of
           Inl e \<Rightarrow> Inl e
         | Inr a \<Rightarrow>
             (case img_at h s k x iyc of
                Inl e \<Rightarrow> Inl e
              | Inr b \<Rightarrow>
                  (if k < length out
                   then add_samples rnd h s x y yf yc iyf iyc (Suc k)
                          (out[k := rnd (out ! k
                                     + rnd (rnd (rnd (yc - y) * a) + rnd (rnd (y - yf) * b)))])
                   else Inl ArrayIndex)))
      else Inr out)"
  by pat_completeness auto
termination
  by (relation "measure (\<lambda>(rnd, h, s, x, y, yf, yc, iyf, iyc, k, out). N_images s - k)") auto

text \<open>
  The loop over the samples of one region,
  \<^verbatim>\<open>for(j < N_samples; j++, x++, y += dy)\<close>, from the iteration \<open>j\<close> on.  A \<^verbatim>\<open>break\<close>
  leaves \<open>x\<close> and \<open>y\<close> as they are.  \<^verbatim>\<open>floor(y)\<close> is exact, and so is \<^verbatim>\<open>y_floor + 1.\<close>
  below \<open>2\<^sup>5\<^sup>3\<close>; from \<open>2\<^sup>3\<^sup>1\<close> on the conversion of either value is undefined, rounded or
  not.
\<close>

function los_samples ::
  "(real \<Rightarrow> real) \<Rightarrow> heap \<Rightarrow> TImgStack \<Rightarrow> int \<Rightarrow> real \<Rightarrow> nat \<Rightarrow> nat \<Rightarrow> los_vars
     \<Rightarrow> error + los_vars"
where
  "los_samples rnd h s y_max dy N_samples j v =
     (if j < N_samples then
        (let yf = real_of_int \<lfloor>los_y v\<rfloor>;
             yc = yf + 1;
             v1 = v\<lparr>los_y_floor := Some yf, los_y_ceil := Some yc\<rparr>
         in (case to_int yc of
               Inl e \<Rightarrow> Inl e
             | Inr iyc \<Rightarrow>
                 (if y_max \<le> iyc then Inr v1
                  else (case to_int yf of
                          Inl e \<Rightarrow> Inl e
                        | Inr iyf \<Rightarrow>
                            (if iyf < 0 then Inr v1
                             else (case add_samples rnd h s (los_x v) (los_y v) yf yc iyf iyc 0
                                          (los_ret v) of
                                     Inl e \<Rightarrow> Inl e
                                   | Inr out \<Rightarrow>
                                       los_samples rnd h s y_max dy N_samples (Suc j)
                                         (v1\<lparr>los_ret := out, los_x := los_x v + 1,
                                             los_y := rnd (los_y v + dy)\<rparr>)))))))
      else Inr v)"
  by pat_completeness auto
termination
  by (relation "measure (\<lambda>(rnd, h, s, y_max, dy, N_samples, j, v). N_samples - j)") auto

text \<open>
  The two tests after the loop over the samples, on the values that \<^verbatim>\<open>y_ceil\<close> and
  \<^verbatim>\<open>y_floor\<close> hold at that point: \<open>Inr True\<close> when the loop over the regions breaks.
\<close>

definition region_break :: "int \<Rightarrow> los_vars \<Rightarrow> error + bool" where
  "region_break y_max v =
     (case los_y_ceil v of
        None \<Rightarrow> Inl Uninitialised
      | Some yc \<Rightarrow>
          (case to_int yc of
             Inl e \<Rightarrow> Inl e
           | Inr iyc \<Rightarrow>
               (if y_max \<le> iyc then Inr True
                else (case los_y_floor v of
                        None \<Rightarrow> Inl Uninitialised
                      | Some yf \<Rightarrow>
                          (case to_int yf of
                             Inl e \<Rightarrow> Inl e
                           | Inr iyf \<Rightarrow> Inr (iyf < 0))))))"

text \<open>
  What \<^verbatim>\<open>y_floor\<close> and \<^verbatim>\<open>y_ceil\<close> hold after an iteration of the sample loop at a \<open>y\<close>
  whose floor and ceiling are values of \<^verbatim>\<open>int\<close>: an integer and its successor.
\<close>

definition floor_ceil_stored :: "los_vars \<Rightarrow> bool" where
  "floor_ceil_stored v \<longleftrightarrow>
     (case los_y_floor v of
        None \<Rightarrow> False
      | Some yf \<Rightarrow>
          yf = real_of_int \<lfloor>yf\<rfloor> \<and> - 2147483648 \<le> \<lfloor>yf\<rfloor> \<and> \<lfloor>yf\<rfloor> + 1 \<le> 2147483647 \<and>
          los_y_ceil v = Some (yf + 1))"

text \<open>
  \<^verbatim>\<open>dy = (double)(EBV[i+1] - EBV[i]) / (double)(N_samples) / img_stack.rect->dx[1]\<close>:
  its value, and the assignment with the two reads of \<open>EBV\<close>, the array the pointer refers
  to.
\<close>

definition region_step :: "(real \<Rightarrow> real) \<Rightarrow> real list \<Rightarrow> nat \<Rightarrow> real \<Rightarrow> nat \<Rightarrow> real" where
  "region_step rnd EBV N_samples dx1 i =
     rnd (rnd (rnd (EBV ! Suc i - EBV ! i) / real N_samples) / dx1)"

definition region_dy :: "(real \<Rightarrow> real) \<Rightarrow> real list \<Rightarrow> nat \<Rightarrow> real \<Rightarrow> nat \<Rightarrow> error + real" where
  "region_dy rnd EBV N_samples dx1 i =
     (if Suc i < length EBV then Inr (region_step rnd EBV N_samples dx1 i)
      else Inl ArrayIndex)"

text \<open>The loop over the regions, \<^verbatim>\<open>for(i < N_regions)\<close>, from the region \<open>i\<close> on.\<close>

function los_regions ::
  "(real \<Rightarrow> real) \<Rightarrow> heap \<Rightarrow> TImgStack \<Rightarrow> real list \<Rightarrow> nat \<Rightarrow> nat \<Rightarrow> int \<Rightarrow> real \<Rightarrow> nat
     \<Rightarrow> los_vars \<Rightarrow> error + los_vars"
where
  "los_regions rnd h s EBV N_regions N_samples y_max dx1 i v =
     (if i < N_regions then
        (case region_dy rnd EBV N_samples dx1 i of
           Inl e \<Rightarrow> Inl e
         | Inr dy \<Rightarrow>
             (case los_samples rnd h s y_max dy N_samples 0 v of
                Inl e \<Rightarrow> Inl e
              | Inr v' \<Rightarrow>
                  (case region_break y_max v' of
                     Inl e \<Rightarrow> Inl e
                   | Inr True \<Rightarrow> Inr v'
                   | Inr False \<Rightarrow>
                       los_regions rnd h s EBV N_regions N_samples y_max dx1 (Suc i) v')))
      else Inr v)"
  by pat_completeness auto
termination
  by (relation
      "measure (\<lambda>(rnd, h, s, EBV, N_regions, N_samples, y_max, dx1, i, v). N_regions - i)")
    auto

text \<open>
  What is left of the run of \<^verbatim>\<open>los_integral\<close> from the top of the body of the sample loop,
  at sample \<open>j\<close> of region \<open>i\<close>: the rest of the sample loop of region \<open>i\<close>, the tests
  after it, and the regions after \<open>i\<close>.
\<close>

definition los_resume ::
  "(real \<Rightarrow> real) \<Rightarrow> heap \<Rightarrow> TImgStack \<Rightarrow> real list \<Rightarrow> nat \<Rightarrow> nat \<Rightarrow> int \<Rightarrow> real \<Rightarrow> nat \<Rightarrow> nat
     \<Rightarrow> los_vars \<Rightarrow> error + los_vars"
where
  "los_resume rnd h s EBV N_regions N_samples y_max dx1 i j v =
     (case region_dy rnd EBV N_samples dx1 i of
        Inl e \<Rightarrow> Inl e
      | Inr dy \<Rightarrow>
          (case los_samples rnd h s y_max dy N_samples j v of
             Inl e \<Rightarrow> Inl e
           | Inr v' \<Rightarrow>
               (case region_break y_max v' of
                  Inl e \<Rightarrow> Inl e
                | Inr True \<Rightarrow> Inr v'
                | Inr False \<Rightarrow>
                    los_regions rnd h s EBV N_regions N_samples y_max dx1 (Suc i) v')))"

text \<open>
  The value of \<open>y\<close> at the top of the body of the sample loop for the distance bin \<open>x\<close>
  when no \<^verbatim>\<open>break\<close> was taken before: the start value
  \<^verbatim>\<open>(EBV[0] - rect->min[1]) / rect->dx[1]\<close>, then one \<^verbatim>\<open>y += dy\<close> per bin, with the \<open>dy\<close>
  of the region of that bin.
\<close>

fun los_y_at :: "(real \<Rightarrow> real) \<Rightarrow> TRect \<Rightarrow> real list \<Rightarrow> nat \<Rightarrow> nat \<Rightarrow> real" where
  "los_y_at rnd r EBV N_samples 0 = rnd (rnd (EBV ! 0 - snd (min_r r)) / snd (dx r))"
| "los_y_at rnd r EBV N_samples (Suc x) =
     rnd (los_y_at rnd r EBV N_samples x
          + region_step rnd EBV N_samples (snd (dx r)) (x div N_samples))"

text \<open>
  \<^verbatim>\<open>los_integral(img_stack, ret, EBV, N_regions)\<close>.  The remainder by \<open>N_regions = 0\<close>
  inside the assertion is the error \<open>DivideByZero\<close>.  With \<^verbatim>\<open>rect->dx[1]\<close> zero the start
  value of \<open>y\<close> is an infinity or a NaN, which no real stands for: the error \<open>NonFinite\<close>.
  The result is the content of \<^verbatim>\<open>ret\<close>, which the function overwrites in its first
  \<open>N_images\<close> entries.
\<close>

definition los_start :: "(real \<Rightarrow> real) \<Rightarrow> TImgStack \<Rightarrow> TRect \<Rightarrow> real list \<Rightarrow> los_vars" where
  "los_start rnd s r EBV =
     \<lparr>los_x = 0,
      los_y = rnd (rnd (EBV ! 0 - snd (min_r r)) / snd (dx r)),
      los_y_floor = None, los_y_ceil = None,
      los_ret = replicate (N_images s) 0\<rparr>"

definition los_integral ::
  "(real \<Rightarrow> real) \<Rightarrow> heap \<Rightarrow> TImgStack \<Rightarrow> real list \<Rightarrow> nat \<Rightarrow> error + real list"
where
  "los_integral rnd h s EBV N_regions =
     (case rect_of h s of
        Inl e \<Rightarrow> Inl e
      | Inr r \<Rightarrow>
          (if N_regions = 0 then Inl DivideByZero
           else if fst (N_bins r) mod N_regions \<noteq> 0 then Inl AssertFailed
           else if EBV = [] then Inl ArrayIndex
           else if snd (dx r) = 0 then Inl NonFinite
           else (case los_regions rnd h s EBV N_regions (fst (N_bins r) div N_regions)
                        (int (snd (N_bins r))) (snd (dx r)) 0 (los_start rnd s r EBV) of
                   Inl e \<Rightarrow> Inl e
                 | Inr v \<Rightarrow> Inr (los_ret v))))"

text \<open>
  The counters \<^verbatim>\<open>x\<close>, \<^verbatim>\<open>j\<close>, \<^verbatim>\<open>k\<close> and the bound \<^verbatim>\<open>y_max\<close> of \<^verbatim>\<open>los_integral\<close> are of type
  \<^verbatim>\<open>int\<close>.  They hold the values that the model gives them when the number of surfaces
  and the two sizes of the grid are values of \<^verbatim>\<open>int\<close>.
\<close>

definition int_sized :: "TImgStack \<Rightarrow> TRect \<Rightarrow> bool" where
  "int_sized s r \<longleftrightarrow>
     N_images s \<le> 2147483647 \<and> fst (N_bins r) \<le> 2147483647 \<and> snd (N_bins r) \<le> 2147483647"

section \<open>The log-posterior and the random initial state\<close>

text \<open>
  The values a log-posterior takes: a finite real, the negative infinity that
  \<^verbatim>\<open>lnp_los_extinction\<close> returns for a rejected state and that \<^verbatim>\<open>log(0.)\<close> gives, and the
  NaN that \<^verbatim>\<open>log\<close> gives on a negative argument.
\<close>

datatype lnp = Finite real | NegInf | NaN

definition c_log :: "real \<Rightarrow> lnp" where
  "c_log v = (if 0 < v then Finite (ln v) else if v = 0 then NegInf else NaN)"

fun lnp_add :: "lnp \<Rightarrow> lnp \<Rightarrow> lnp" where
  "lnp_add (Finite a) (Finite b) = Finite (a + b)"
| "lnp_add NaN _ = NaN"
| "lnp_add _ NaN = NaN"
| "lnp_add _ _ = NegInf"

text \<open>
  \<^verbatim>\<open>TLOSMCMCParams\<close>; the field \<open>img_stack\<close> stands for the stack the pointer of that
  name refers to.
\<close>

record TLOSMCMCParams =
  img_stack :: TImgStack
  p0 :: real
  lnp0 :: lnp
  EBV_max :: real

definition TLOSMCMCParams_new :: "TImgStack \<Rightarrow> real \<Rightarrow> real \<Rightarrow> TLOSMCMCParams" where
  "TLOSMCMCParams_new s p e = \<lparr>img_stack = s, p0 = p, lnp0 = c_log p, EBV_max = e\<rparr>"

text \<open>
  \<^verbatim>\<open>for(i = 1; i < N; i++) { Delta_EBV = EBV[i] - EBV[i-1]; if(Delta_EBV < 0.) return neginf; }\<close>
  from index \<open>i\<close> on: \<open>Inr False\<close> when the loop returns negative infinity.
\<close>

function increasing_from :: "real list \<Rightarrow> nat \<Rightarrow> nat \<Rightarrow> error + bool" where
  "increasing_from EBV N i =
     (if i < N then
        (if i < length EBV \<and> 0 < i then
           (if EBV ! i - EBV ! (i - 1) < 0 then Inr False
            else increasing_from EBV N (Suc i))
         else Inl ArrayIndex)
      else Inr True)"
  by pat_completeness auto
termination
  by (relation "measure (\<lambda>(EBV, N, i). N - i)") auto

text \<open>
  \<^verbatim>\<open>for(i < N_images) { if(line_int[i] < 1.e5*p0) { line_int[i] += p0 * exp(-line_int[i]/p0); }
                           lnp += log(line_int[i]); }\<close>
  over the entries of \<^verbatim>\<open>line_int\<close> that are left.
\<close>

fun soften_and_multiply :: "real \<Rightarrow> real list \<Rightarrow> lnp \<Rightarrow> lnp" where
  "soften_and_multiply p [] acc = acc"
| "soften_and_multiply p (l # ls) acc =
     (let l' = (if l < 100000 * p then l + p * exp (- l / p) else l)
      in soften_and_multiply p ls (lnp_add acc (c_log l')))"

text \<open>The reddening prior: what is subtracted from \<^verbatim>\<open>lnp\<close> at the end.\<close>

definition reddening_prior :: "real \<Rightarrow> real \<Rightarrow> lnp \<Rightarrow> lnp" where
  "reddening_prior e_max e_last acc =
     (if 0 < e_max then
        (if e_max < e_last
         then lnp_add acc (Finite (- (0.5 * (e_last - e_max) * (e_last - e_max) / (e_max * e_max))))
         else acc)
      else acc)"

text \<open>
  \<^verbatim>\<open>lnp_los_extinction(EBV, N, params)\<close>.  \<open>N\<close> is \<^verbatim>\<open>unsigned\<close>: for \<open>N = 0\<close> the index
  \<open>N - 1\<close> is out of range.  The rounding \<open>rnd\<close> is that of the line integral.
\<close>

definition lnp_los_extinction ::
  "(real \<Rightarrow> real) \<Rightarrow> heap \<Rightarrow> real list \<Rightarrow> nat \<Rightarrow> TLOSMCMCParams \<Rightarrow> error + lnp"
where
  "lnp_los_extinction rnd h EBV N params =
     (if N = 0 \<or> length EBV < N then Inl ArrayIndex
      else (case rect_of h (img_stack params) of
              Inl e \<Rightarrow> Inl e
            | Inr r \<Rightarrow>
                (if snd (max_r r) \<le> EBV ! (N - 1) then Inr NegInf
                 else if EBV ! 0 < 0 then Inr NegInf
                 else (case increasing_from EBV N 1 of
                         Inl e \<Rightarrow> Inl e
                       | Inr False \<Rightarrow> Inr NegInf
                       | Inr True \<Rightarrow>
                           (case los_integral rnd h (img_stack params) EBV (N - 1) of
                              Inl e \<Rightarrow> Inl e
                            | Inr line_int \<Rightarrow>
                                Inr (reddening_prior (EBV_max params) (EBV ! (N - 1))
                                       (soften_and_multiply (p0 params) line_int
                                          (Finite 0))))))))"

text \<open>
  The generator \<^verbatim>\<open>gsl_rng\<close> of the GNU Scientific Library, as the sequence of the values
  its next calls of \<^verbatim>\<open>gsl_rng_uniform\<close> return; the library documents them to lie in
  \<open>[0, 1)\<close>.
\<close>

type_synonym gsl_rng = "nat \<Rightarrow> real"

definition gsl_rng_uniform :: "gsl_rng \<Rightarrow> real \<times> gsl_rng" where
  "gsl_rng_uniform r = (r 0, \<lambda>n. r (Suc n))"

definition uniform_range :: "gsl_rng \<Rightarrow> bool" where
  "uniform_range r \<longleftrightarrow> (\<forall>n. 0 \<le> r n \<and> r n < 1)"

text \<open>
  \<^verbatim>\<open>for(i < N) { EBV[i] = 0.5 * mu * gsl_rng_uniform(r); if(i > 0) { EBV[i] += EBV[i-1]; } }\<close>
  from index \<open>i\<close> on; \<open>EBV\<close> is the caller's buffer.
\<close>

function fill_EBV ::
  "real \<Rightarrow> nat \<Rightarrow> nat \<Rightarrow> real list \<Rightarrow> gsl_rng \<Rightarrow> error + real list \<times> gsl_rng"
where
  "fill_EBV mu N i EBV r =
     (if i < N then
        (if i < length EBV then
           (case gsl_rng_uniform r of
              (u, r') \<Rightarrow>
                (let e = 0.5 * mu * u;
                     e' = (if 0 < i then e + EBV ! (i - 1) else e)
                 in fill_EBV mu N (Suc i) (EBV[i := e']) r'))
         else Inl ArrayIndex)
      else Inr (EBV, r))"
  by pat_completeness auto
termination
  by (relation "measure (\<lambda>(mu, N, i, EBV, r). N - i)") auto

text \<open>\<^verbatim>\<open>for(i < N) { EBV[i] *= factor; }\<close> from index \<open>i\<close> on.\<close>

function scale_EBV :: "real \<Rightarrow> nat \<Rightarrow> nat \<Rightarrow> real list \<Rightarrow> error + real list" where
  "scale_EBV factor N i EBV =
     (if i < N then
        (if i < length EBV then scale_EBV factor N (Suc i) (EBV[i := EBV ! i * factor])
         else Inl ArrayIndex)
      else Inr EBV)"
  by pat_completeness auto
termination
  by (relation "measure (\<lambda>(factor, N, i, EBV). N - i)") auto

text \<open>\<^verbatim>\<open>gen_rand_los_extinction(EBV, N, r, params)\<close>: the new buffer and the generator.\<close>

definition gen_rand_los_extinction ::
  "heap \<Rightarrow> real list \<Rightarrow> nat \<Rightarrow> gsl_rng \<Rightarrow> TLOSMCMCParams \<Rightarrow> error + real list \<times> gsl_rng"
where
  "gen_rand_los_extinction h EBV N r params =
     (case rect_of h (img_stack params) of
        Inl e \<Rightarrow> Inl e
      | Inr rc \<Rightarrow>
          (let EBV_ceil = snd (max_r rc);
               mu = EBV_ceil / real N
           in (case fill_EBV mu N 0 EBV r of
                 Inl e \<Rightarrow> Inl e
               | Inr (EBV1, r1) \<Rightarrow>
                   (if N = 0 \<or> length EBV1 < N then Inl ArrayIndex
                    else if 0.95 * EBV_ceil \<le> EBV1 ! (N - 1) then
                      (case scale_EBV (0.9 * EBV_ceil / EBV1 ! (N - 1)) N 0 EBV1 of
                         Inl e \<Rightarrow> Inl e
                       | Inr EBV2 \<Rightarrow> Inr (EBV2, r1))
                    else Inr (EBV1, r1)))))"

section \<open>A small stack for concrete runs\<close>

text \<open>
  A grid of 2 distance bins by 4 reddening bins over \<open>[0, 2] \<times> [0, 2]\<close>, and two surfaces
  on it: one identically 3, one identically 0.
\<close>

definition ex_rect :: TRect where
  "ex_rect = \<lparr>min_r = (0, 0), max_r = (2, 2), N_bins = (2, 4), dx = (1, 1/2)\<rparr>"

definition ex_heap :: heap where
  "ex_heap = \<lparr>rects = [0 \<mapsto> ex_rect],
      mats = [1 \<mapsto> \<lparr>rows = 2, cols = 4, data = replicate 8 3\<rparr>,
              2 \<mapsto> \<lparr>rows = 2, cols = 4, data = replicate 8 0\<rparr>],
      next_free = 3\<rparr>"

definition ex_stack :: TImgStack where
  "ex_stack = \<lparr>N_images = 2, img = [Some 1, Some 2], rect = Some 0\<rparr>"

definition ex_params :: TLOSMCMCParams where
  "ex_params = TLOSMCMCParams_new ex_stack (1/2) 0"

declare add_samples.simps [simp del] los_samples.simps [simp del] los_regions.simps [simp del]
  increasing_from.simps [simp del] fill_EBV.simps [simp del] scale_EBV.simps [simp del]
  scale_up.simps [simp del] scale_down.simps [simp del]

text \<open>
  Every surface that a slot of the stack points to has the shape \<open>(n0, n1)\<close>, with one
  element per cell.
\<close>

definition surfaces_shaped :: "heap \<Rightarrow> TImgStack \<Rightarrow> nat \<Rightarrow> nat \<Rightarrow> bool" where
  "surfaces_shaped h s n0 n1 \<longleftrightarrow>
     list_all (\<lambda>p. case p of
                  None \<Rightarrow> True
                | Some a \<Rightarrow>
                    (case mats h a of
                       None \<Rightarrow> True
                     | Some m \<Rightarrow> rows m = n0 \<and> cols m = n1 \<and> length (data m) = n0 * n1))
       (img s)"



text \<open>
  Bounds for the line integral over a surface identically \<open>c\<close> under a rounding of
  relative error \<open>u\<close> and absolute error \<open>eta\<close>: the distance of one bilinear sample from
  \<open>c\<close> (two roundings of the weights, two of the products, one of their sum), and the
  distance of the running sum of \<open>n\<close> samples from \<open>c * n\<close> (one more rounding per sample).
\<close>

definition sample_error :: "real \<Rightarrow> real \<Rightarrow> real \<Rightarrow> real" where
  "sample_error u eta c =
     (1 + u) * ((u * (1 + u + 2 * eta) + u + 2 * eta) * \<bar>c\<bar> + 2 * eta) + u * \<bar>c\<bar> + eta"

fun sum_error :: "real \<Rightarrow> real \<Rightarrow> real \<Rightarrow> nat \<Rightarrow> real" where
  "sum_error u eta c 0 = 0"
| "sum_error u eta c (Suc n) =
     (1 + u) * (sum_error u eta c n + sample_error u eta c) + u * real (Suc n) * \<bar>c\<bar> + eta"






section \<open>The sampler driver\<close>

text \<open>
  The class \<^verbatim>\<open>TParallelAffineSampler\<close> is not part of the sources.  The driver is embedded
  as the sequence of the calls it makes on the sampler and on the chain, in order;
  \<^verbatim>\<open>Step n record t b m\<close> is \<^verbatim>\<open>sampler.step(n, record, t, b, m)\<close>, whose fourth argument
  is the bandwidth override.  What \<^verbatim>\<open>get_GR_diagnostic\<close> writes into \<^verbatim>\<open>GR[0..ndim)\<close>
  after the recorded steps of an attempt is a parameter of the model: \<open>GR attempt\<close>.
\<close>

datatype call =
    Set_scale real
  | Set_replacement_bandwidth real
  | Step nat bool real real real
  | Clear
  | Get_GR_diagnostic
  | Get_chain
  | Save
  | Print_stats

definition max_attempts :: nat where
  "max_attempts = 3"

definition GR_threshold :: real where
  "GR_threshold = 1.2"

text \<open>
  The loop over the dimensions,
  \<^verbatim>\<open>for(i < ndim) if(GR[i] > GR_threshold) { converged = false;
       if(attempt != max_attempts-1) { sampler.step(int(N_steps*1./5.), false, 0., 1., 0.);
                                       sampler.clear(); } break; }\<close>,
  started with \<^verbatim>\<open>converged = true\<close>: the new value of \<^verbatim>\<open>converged\<close> and the calls made.
  \<^verbatim>\<open>N_steps\<close> is an \<^verbatim>\<open>unsigned int\<close>; \<^verbatim>\<open>int(N_steps*1./5.)\<close> is its fifth, rounded down.
\<close>

fun check_GR :: "32 word \<Rightarrow> nat \<Rightarrow> real list \<Rightarrow> bool \<times> call list" where
  "check_GR N_steps attempt [] = (True, [])"
| "check_GR N_steps attempt (g # gs) =
     (if GR_threshold < g then
        (False,
         if attempt \<noteq> max_attempts - 1
         then [Step (unat N_steps div 5) False 0 1 0, Clear]
         else [])
      else check_GR N_steps attempt gs)"

text \<open>
  \<^verbatim>\<open>for(attempt = 0; (attempt < max_attempts) && (!converged); attempt++)\<close> from the
  given attempt on: the calls, and the final \<^verbatim>\<open>attempt\<close> and \<^verbatim>\<open>converged\<close>.  In
  \<^verbatim>\<open>(1<<attempt)*N_steps\<close> the left factor is converted to \<^verbatim>\<open>unsigned int\<close> and the product
  wraps at \<open>2\<^sup>3\<^sup>2\<close>.
\<close>

function main_run ::
  "32 word \<Rightarrow> (nat \<Rightarrow> real list) \<Rightarrow> nat \<Rightarrow> bool \<Rightarrow> call list \<times> nat \<times> bool"
where
  "main_run N_steps GR attempt converged =
     (if attempt < max_attempts \<and> \<not> converged then
        (case check_GR N_steps attempt (GR attempt) of
           (converged', calls) \<Rightarrow>
             (case main_run N_steps GR (Suc attempt) converged' of
                (rest, attempt', converged'') \<Rightarrow>
                  (Step (unat (push_bit attempt 1 * N_steps)) True 0 0.1 0
                     # Get_GR_diagnostic # calls @ rest,
                   attempt', converged'')))
      else ([], attempt, converged))"
  by pat_completeness auto
termination
  by (relation "measure (\<lambda>(N_steps, GR, attempt, converged). max_attempts - attempt)") auto

text \<open>
  The burn-in: \<^verbatim>\<open>int(N_steps*20./100.)\<close> and \<^verbatim>\<open>int(N_steps*5./100)\<close> steps, four times,
  then \<^verbatim>\<open>clear()\<close>.
\<close>

definition burn_in :: "32 word \<Rightarrow> call list" where
  "burn_in N_steps =
     [Step (unat N_steps * 20 div 100) False 0 0.5 0,
      Step (unat N_steps * 5 div 100) False 0 1 0,
      Step (unat N_steps * 20 div 100) False 0 0.5 0,
      Step (unat N_steps * 5 div 100) False 0 1 0,
      Step (unat N_steps * 20 div 100) False 0 0.5 0,
      Step (unat N_steps * 5 div 100) False 0 1 0,
      Step (unat N_steps * 20 div 100) False 0 0.5 0,
      Step (unat N_steps * 5 div 100) False 0 1 0,
      Clear]"

text \<open>
  \<^verbatim>\<open>sample_los_extinction\<close>, with \<open>N_steps = options.steps\<close>: all calls in order, and
  whether the run converged.  After the loop the chain is fetched and saved in every case.
\<close>

definition sample_los_extinction :: "32 word \<Rightarrow> (nat \<Rightarrow> real list) \<Rightarrow> call list \<times> bool" where
  "sample_los_extinction N_steps GR =
     (case main_run N_steps GR 0 False of
        (calls, attempt, converged) \<Rightarrow>
          ([Set_scale 1.1, Set_replacement_bandwidth 0.75] @ burn_in N_steps @ calls
             @ [Get_chain, Save, Print_stats],
           converged))"

text \<open>The step counts of the recorded runs among a sequence of calls.\<close>

fun recorded_steps :: "call list \<Rightarrow> nat list" where
  "recorded_steps [] = []"
| "recorded_steps (Step n True t b m # cs) = n # recorded_steps cs"
| "recorded_steps (c # cs) = recorded_steps cs"

text \<open>Two outcomes of the diagnostic: always below the threshold, always above.\<close>

definition GR_converged :: "nat \<Rightarrow> real list" where
  "GR_converged attempt = [1, 11/10]"

definition GR_diverged :: "nat \<Rightarrow> real list" where
  "GR_diverged attempt = [2]"

declare main_run.simps [simp del]

section \<open>The inverse-CDF table of TDraw1D\<close>

text \<open>
  \<^verbatim>\<open>(double)(n-1)\<close> for an \<^verbatim>\<open>unsigned int n\<close>: the subtraction wraps, so \<open>n = 0\<close> gives
  \<open>2\<^sup>3\<^sup>2 - 1\<close>.
\<close>

definition u32_minus_one :: "nat \<Rightarrow> nat" where
  "u32_minus_one n = (n + 4294967295) mod 4294967296"

text \<open>
  Modelled from the spec: the class \<^verbatim>\<open>TMultiLinearInterp\<close> is missing from the sources.
  In one dimension it is a table over \<open>samples\<close> knots, uniformly spaced from its lower to
  its upper bound; \<^verbatim>\<open>set(&x, v)\<close> stores \<open>v\<close> at the knot whose coordinate is \<open>x\<close>, and
  evaluation at the coordinate of a knot returns the value stored there.  The constructor
  of \<^verbatim>\<open>TDraw1D\<close> only passes coordinates of knots (\<open>x_min + k * dx\<close> to \<^verbatim>\<open>P_of_x\<close>,
  \<open>i * dP\<close> and 1 to \<^verbatim>\<open>x_of_P\<close>), so a table is the list of its knot values, in order,
  each \<open>-1\<close> (the fill value) until it is set.

  \<^verbatim>\<open>TDraw1D\<close>: the bounds and the table \<^verbatim>\<open>x_of_P\<close>.
\<close>

record TDraw1D =
  draw_x_min :: real
  draw_x_max :: real
  x_of_P :: "real list"

text \<open>
  The first loop of the constructor, from index \<open>i\<close> on: it stores the running sum \<open>P\<close> at
  knot \<open>i\<close> and then adds \<open>dx * f(x\<^sub>i)\<close> (or \<open>dx * exp(f(x\<^sub>i))\<close>) unless \<open>i\<close> is the last
  knot.  \<open>step\<close> is the local \<^verbatim>\<open>dx\<close>; \<open>func\<close> is \<^verbatim>\<open>func(x, params)\<close> with its parameters.
  The result is the table and the final \<open>P\<close>.
\<close>

function fill_P_of_x ::
  "(real \<Rightarrow> real) \<Rightarrow> bool \<Rightarrow> real \<Rightarrow> real \<Rightarrow> nat \<Rightarrow> nat \<Rightarrow> real \<Rightarrow> real list \<Rightarrow> real list \<times> real"
where
  "fill_P_of_x func is_log xmin step samples i P tab =
     (if i < samples then
        (let x = xmin + real i * step;
             tab' = tab[i := P];
             P' = (if i < samples - 1
                   then (if is_log then P + step * exp (func x) else P + step * func x)
                   else P)
         in fill_P_of_x func is_log xmin step samples (Suc i) P' tab')
      else (tab, P))"
  by pat_completeness auto
termination
  by (relation "measure (\<lambda>(func, is_log, xmin, step, samples, i, P, tab). samples - i)") auto

text \<open>
  The inner loop of the inversion, \<^verbatim>\<open>for(k = k_last+1; k < samples; k++)\<close>, from \<open>k\<close> on,
  for the target cumulative probability \<open>P = i * dP\<close>.  The state is the pair of the
  locals \<^verbatim>\<open>x\<close> and \<^verbatim>\<open>k_last\<close>: the loop assigns \<open>x = x_min + k * dx\<close> in every iteration,
  and where \<open>P_tmp >= P\<close> it computes
  \<^verbatim>\<open>dPdx = (P_tmp - (double)(i-1)*dP) / dx; x = x_min + (double)(k-1) * dx + dP / dPdx;
  k_last = k - 1;\<close> and breaks.
\<close>

function search_x ::
  "real list \<Rightarrow> real \<Rightarrow> real \<Rightarrow> real \<Rightarrow> real \<Rightarrow> nat \<Rightarrow> nat \<Rightarrow> real \<Rightarrow> nat \<Rightarrow> real \<times> nat
     \<Rightarrow> real \<times> nat"
where
  "search_x P_of_x P_norm xmin step dP samples i P k xk =
     (if k < samples then
        (let x = xmin + real k * step;
             P_tmp = P_of_x ! k / P_norm
         in if P \<le> P_tmp then
              (let dPdx = (P_tmp - real (u32_minus_one i) * dP) / step
               in (xmin + real (u32_minus_one k) * step + dP / dPdx, k - 1))
            else search_x P_of_x P_norm xmin step dP samples i P (Suc k) (x, snd xk))
      else xk)"
  by pat_completeness auto
termination
  by (relation
      "measure (\<lambda>(P_of_x, P_norm, xmin, step, dP, samples, i, P, k, xk). samples - k)") auto

text \<open>
  The outer loop of the inversion, from \<open>i\<close> on: after the search, \<^verbatim>\<open>x_of_P->set(&P, x)\<close>
  stores \<open>x\<close> at knot \<open>i\<close>.
\<close>

function invert_P ::
  "real list \<Rightarrow> real \<Rightarrow> real \<Rightarrow> real \<Rightarrow> real \<Rightarrow> nat \<Rightarrow> nat \<Rightarrow> real \<times> nat \<Rightarrow> real list
     \<Rightarrow> real list"
where
  "invert_P P_of_x P_norm xmin step dP samples i xk tab =
     (if i < samples then
        (let P = real i * dP;
             xk' = search_x P_of_x P_norm xmin step dP samples i P (snd xk + 1) xk
         in invert_P P_of_x P_norm xmin step dP samples (Suc i) xk' (tab[i := fst xk']))
      else tab)"
  by pat_completeness auto
termination
  by (relation
      "measure (\<lambda>(P_of_x, P_norm, xmin, step, dP, samples, i, xk, tab). samples - i)") auto

text \<open>
  \<^verbatim>\<open>TDraw1D::TDraw1D(func, _x_min, _x_max, _params, samples, is_log)\<close>.  When the
  inversion starts, \<^verbatim>\<open>x\<close> holds the coordinate of the last knot and \<^verbatim>\<open>k_last\<close> is 0.  At
  the end \<^verbatim>\<open>x_of_P->set(&P_tmp, x_max)\<close> with \<open>P_tmp = 1\<close> overwrites the last knot.
\<close>

definition TDraw1D_new ::
  "(real \<Rightarrow> real) \<Rightarrow> real \<Rightarrow> real \<Rightarrow> nat \<Rightarrow> bool \<Rightarrow> error + TDraw1D"
where
  "TDraw1D_new func xmin xmax samples is_log =
     (if samples \<le> 1 then Inl AssertFailed
      else
        (let step = (xmax - xmin) / real (samples - 1);
             (P_of_x, P_norm) =
                fill_P_of_x func is_log xmin step samples 0 0 (replicate samples (- 1));
             dP = 1 / real (samples - 1);
             tab = invert_P P_of_x P_norm xmin step dP samples 0
                     (xmin + real (samples - 1) * step, 0) (replicate samples (- 1))
         in Inr \<lparr>draw_x_min = xmin, draw_x_max = xmax,
                 x_of_P = tab[samples - 1 := xmax]\<rparr>))"

text \<open>
  The entry of the inverse table at the cumulative probability \<open>p\<close> in the words of the
  specification (section 4.7, step 3): with \<open>k\<close> the smallest index such that
  \<open>P(x\<^sub>k) / P_norm >= p\<close>, the linear interpolation of \<open>x\<close> between \<open>x\<^sub>k\<^sub>-\<^sub>1\<close> and \<open>x\<^sub>k\<close> at \<open>p\<close>;
  for \<open>k = 0\<close> there is no knot before \<open>x\<^sub>0\<close> and the entry is \<open>x\<^sub>0\<close>.
\<close>

definition spec_inverse_entry :: "real list \<Rightarrow> real \<Rightarrow> real \<Rightarrow> real \<Rightarrow> real \<Rightarrow> real option" where
  "spec_inverse_entry P_of_x P_norm xmin step p =
     (case find (\<lambda>k. p \<le> P_of_x ! k / P_norm) [0..<length P_of_x] of
        None \<Rightarrow> None
      | Some k \<Rightarrow>
          (if k = 0 then Some xmin
           else Some (xmin + real (k - 1) * step
                  + (p - P_of_x ! (k - 1) / P_norm)
                    / (P_of_x ! k / P_norm - P_of_x ! (k - 1) / P_norm) * step)))"

text \<open>A density for a concrete run: \<open>f(x) = 1 + 2x\<close> on \<open>[0, 2]\<close>, three knots.\<close>

definition ex_density :: "real \<Rightarrow> real" where
  "ex_density x = 1 + 2 * x"


section \<open>The noisy magnitudes of the catalog generators\<close>

text \<open>
  \<^verbatim>\<open>gsl_ran_gaussian_ziggurat(r, sigma)\<close> of the GNU Scientific Library returns a normal
  deviate of standard deviation \<open>sigma\<close>: \<open>sigma\<close> times a standard normal deviate.  The
  generator is the sequence of the standard deviates its next calls use.
\<close>

type_synonym gaussian_draws = "nat \<Rightarrow> real"

definition gsl_ran_gaussian_ziggurat :: "gaussian_draws \<Rightarrow> real \<Rightarrow> real \<times> gaussian_draws" where
  "gsl_ran_gaussian_ziggurat r sigma = (sigma * r 0, \<lambda>n. r (Suc n))"

text \<open>
  The locals that the loop over the bands changes: the arrays \<^verbatim>\<open>mag\<close> and \<^verbatim>\<open>err\<close> (they are
  declared before the loop over the stars and keep their content from star to star),
  \<^verbatim>\<open>N_nonobs\<close>, \<^verbatim>\<open>observed\<close> and the generator.
\<close>

record band_vars =
  bv_mag :: "real list"
  bv_err :: "real list"
  bv_N_nonobs :: nat
  bv_observed :: bool
  bv_r :: gaussian_draws

text \<open>
  The loop \<^verbatim>\<open>for(k < NBANDS)\<close> of \<^verbatim>\<open>draw_from_synth_model\<close> (\<open>capped = False\<close>) and of
  \<^verbatim>\<open>draw_from_emp_model\<close> (\<open>capped = True\<close>: the line \<^verbatim>\<open>if(err[k] > 1.5) { err[k] = 1.5; }\<close>),
  from band \<open>k\<close> on, for the star with index \<open>i\<close> of the enclosing loop:
  \<^verbatim>\<open>mag[k] = sed.absmag[k] + DM + EBV * ext_model.get_A(RV, k);
  err[k] = 0.02 + 0.1*exp(mag[i]-mag_limit[i]-1.5);
  mag[k] += gsl_ran_gaussian_ziggurat(r, err[k]);
  if(mag[k] > mag_limit[k]) { N_nonobs++;
     if((k == 0) || N_nonobs > 1) { observed = false; break; } }\<close>
  \<open>A k\<close> is \<^verbatim>\<open>ext_model.get_A(RV, k)\<close>.  The arrays have \<open>NBANDS\<close> entries, so the index
  \<open>k\<close> is in range; the index \<open>i\<close> need not be.
\<close>

function observe_bands ::
  "bool \<Rightarrow> nat \<Rightarrow> nat \<Rightarrow> real list \<Rightarrow> real \<Rightarrow> real \<Rightarrow> (nat \<Rightarrow> real) \<Rightarrow> real list \<Rightarrow> nat
     \<Rightarrow> band_vars \<Rightarrow> error + band_vars"
where
  "observe_bands capped NBANDS i absmag DM EBV A mag_limit k v =
     (if k < NBANDS then
        (let mag1 = (bv_mag v)[k := absmag ! k + DM + EBV * A k]
         in if i < length mag1 \<and> i < length mag_limit then
              (let e = 0.02 + 0.1 * exp (mag1 ! i - mag_limit ! i - 1.5);
                   e' = (if capped \<and> 1.5 < e then 1.5 else e);
                   err1 = (bv_err v)[k := e']
               in (case gsl_ran_gaussian_ziggurat (bv_r v) (err1 ! k) of
                     (noise, r') \<Rightarrow>
                       (let mag2 = mag1[k := mag1 ! k + noise]
                        in if mag_limit ! k < mag2 ! k then
                             (if k = 0 \<or> 1 < bv_N_nonobs v + 1
                              then Inr (v\<lparr>bv_mag := mag2, bv_err := err1,
                                          bv_N_nonobs := bv_N_nonobs v + 1,
                                          bv_observed := False, bv_r := r'\<rparr>)
                              else observe_bands capped NBANDS i absmag DM EBV A mag_limit
                                     (Suc k)
                                     (v\<lparr>bv_mag := mag2, bv_err := err1,
                                        bv_N_nonobs := bv_N_nonobs v + 1, bv_r := r'\<rparr>))
                           else observe_bands capped NBANDS i absmag DM EBV A mag_limit (Suc k)
                                  (v\<lparr>bv_mag := mag2, bv_err := err1, bv_r := r'\<rparr>))))
            else Inl ArrayIndex)
      else Inr v)"
  by pat_completeness auto
termination
  by (relation
      "measure (\<lambda>(capped, NBANDS, i, absmag, DM, EBV, A, mag_limit, k, v). NBANDS - k)") auto

text \<open>
  The state before the loop: \<^verbatim>\<open>observed = true; N_nonobs = 0;\<close> and the two loops from
  \<open>k = 0\<close>.
\<close>

definition band_start :: "real list \<Rightarrow> real list \<Rightarrow> gaussian_draws \<Rightarrow> band_vars" where
  "band_start mag err r =
     \<lparr>bv_mag = mag, bv_err = err, bv_N_nonobs = 0, bv_observed = True, bv_r = r\<rparr>"

definition synth_magnitudes ::
  "nat \<Rightarrow> nat \<Rightarrow> real list \<Rightarrow> real \<Rightarrow> real \<Rightarrow> (nat \<Rightarrow> real) \<Rightarrow> real list
     \<Rightarrow> real list \<Rightarrow> real list \<Rightarrow> gaussian_draws \<Rightarrow> error + band_vars"
where
  "synth_magnitudes NBANDS i absmag DM EBV A mag_limit mag err r =
     observe_bands False NBANDS i absmag DM EBV A mag_limit 0 (band_start mag err r)"

definition emp_magnitudes ::
  "nat \<Rightarrow> nat \<Rightarrow> real list \<Rightarrow> real \<Rightarrow> real \<Rightarrow> (nat \<Rightarrow> real) \<Rightarrow> real list
     \<Rightarrow> real list \<Rightarrow> real list \<Rightarrow> gaussian_draws \<Rightarrow> error + band_vars"
where
  "emp_magnitudes NBANDS i absmag DM EBV A mag_limit mag err r =
     observe_bands True NBANDS i absmag DM EBV A mag_limit 0 (band_start mag err r)"


declare fill_P_of_x.simps [simp del] search_x.simps [simp del] invert_P.simps [simp del]
  observe_bands.simps [simp del]

section \<open>Properties of resize\<close>

lemma alloc_imgs_length: "length (fst (alloc_imgs n h)) = n"
  by (induction n arbitrary: h) (simp_all add: new_Mat_def case_prod_beta)

lemma alloc_imgs_next_free: "next_free (snd (alloc_imgs n h)) = next_free h + n"
  by (induction n arbitrary: h) (simp_all add: new_Mat_def case_prod_beta)

lemma alloc_imgs_rects: "rects (snd (alloc_imgs n h)) = rects h"
  by (induction n arbitrary: h) (simp_all add: new_Mat_def case_prod_beta)

lemma alloc_imgs_nth:
  "i < n \<Longrightarrow> fst (alloc_imgs n h) ! i = Some (next_free h + i)"
proof (induction n arbitrary: h i)
  case 0
  then show ?case by simp
next
  case (Suc n)
  show ?case
  proof (cases i)
    case 0
    then show ?thesis by (simp add: new_Mat_def case_prod_beta)
  next
    case (Suc i')
    with Suc.prems have "i' < n" by simp
    from Suc.IH [OF this, of "snd (new_Mat h)"] Suc
    show ?thesis by (simp add: new_Mat_def case_prod_beta)
  qed
qed

lemma alloc_imgs_old_cells:
  "a < next_free h \<Longrightarrow> mats (snd (alloc_imgs n h)) a = mats h a"
  by (induction n arbitrary: h) (simp_all add: new_Mat_def case_prod_beta)

lemma alloc_imgs_new_cells:
  "i < n \<Longrightarrow> mats (snd (alloc_imgs n h)) (next_free h + i) = Some empty_Mat"
proof (induction n arbitrary: h i)
  case 0
  then show ?case by simp
next
  case (Suc n)
  obtain a h' where new: "new_Mat h = (a, h')" by (cases "new_Mat h")
  then have a: "a = next_free h" and nf: "next_free h' = Suc (next_free h)"
    and cell: "mats h' (next_free h) = Some empty_Mat"
    by (auto simp: new_Mat_def)
  show ?case
  proof (cases i)
    case 0
    have "mats (snd (alloc_imgs n h')) (next_free h) = mats h' (next_free h)"
      by (rule alloc_imgs_old_cells) (simp add: nf)
    with 0 new cell show ?thesis by (simp add: case_prod_beta)
  next
    case (Suc i')
    with Suc.prems have "i' < n" by simp
    from Suc.IH [OF this, of h'] Suc new nf
    show ?thesis by (simp add: case_prod_beta)
  qed
qed

lemma delete_imgs_next_free: "next_free (delete_imgs ps h) = next_free h"
  by (induction ps h rule: delete_imgs.induct) (auto simp: delete_Mat_def)

lemma delete_imgs_rects: "rects (delete_imgs ps h) = rects h"
  by (induction ps h rule: delete_imgs.induct) (auto simp: delete_Mat_def)

text \<open>
  What \<open>resize\<close> does establish: \<open>N_images = N'\<close>, and the \<open>N'\<close> slots point to \<open>N'\<close>
  distinct newly allocated cells, each holding an empty matrix.
\<close>

lemma resize_images:
  assumes "resize n (s, h) = (s', h')"
  shows "N_images s' = n \<and> length (img s') = n \<and>
         (\<forall>i<n. img s' ! i = Some (next_free h + i) \<and>
                 mats h' (next_free h + i) = Some empty_Mat)"
proof -
  define h2 where
    "h2 = (case rect s of None \<Rightarrow> delete_imgs (img s) h
           | Some a \<Rightarrow> delete_TRect a (delete_imgs (img s) h))"
  have nf: "next_free h2 = next_free h"
    by (simp add: h2_def delete_imgs_next_free delete_TRect_def split: option.splits)
  from assms have s': "s' = s\<lparr>N_images := n, img := fst (alloc_imgs n h2)\<rparr>"
    and h': "h' = snd (alloc_imgs n h2)"
    by (auto simp: resize_def Let_def h2_def case_prod_beta split: option.splits)
  show ?thesis
    using alloc_imgs_nth [of _ n h2] alloc_imgs_new_cells [of _ n h2]
    by (simp add: s' h' alloc_imgs_length nf)
qed

lemma resize_unset_rect:
  "rect s = None \<Longrightarrow> rect (fst (resize n (s, h))) = None"
  by (simp add: resize_def Let_def case_prod_beta)

text \<open>
  C8.  The claim: after \<open>resize(N')\<close> the stored rectangle is cleared, and the stack is as
  if no rectangle had ever been assigned.  The source deletes the rectangle and does not
  reset the pointer.  On the stack built by \<^verbatim>\<open>TImgStack(1, r)\<close> in the empty heap,
  \<open>resize(2)\<close> leaves two new empty images and \<open>N_images = 2\<close>, but the field \<open>rect\<close> still
  holds the address of the deleted rectangle: reading it is a dangling read, and a later
  \<open>set_rect\<close> assigns through the dangling pointer, where on a stack that never had a
  rectangle (\<^verbatim>\<open>TImgStack(1)\<close>, then \<open>resize(2)\<close>) it allocates a new one.
\<close>

theorem resize_leaves_rect_dangling:
  "(case resize 2 (TImgStack_new_rect 1 r empty_heap) of (s', h') \<Rightarrow>
      N_images s' = 2 \<and> img s' = [Some 1, Some 2] \<and>
      mats h' 1 = Some empty_Mat \<and> mats h' 2 = Some empty_Mat \<and>
      rect s' = Some 0 \<and> rect s' \<noteq> None \<and> rects h' 0 = None \<and>
      rect_of h' s' = Inl DanglingPointer \<and>
      set_rect r (s', h') = Inl DanglingPointer) \<and>
   (case resize 2 (TImgStack_new 1 empty_heap) of (s', h') \<Rightarrow>
      rect s' = None \<and> rect_of h' s' = Inl NullPointer \<and>
      (\<exists>sh. set_rect r (s', h') = Inr sh))"
  by (simp add: resize_def TImgStack_new_rect_def TImgStack_new_def new_TRect_def
      new_Mat_def empty_heap_def delete_TRect_def delete_Mat_def rect_of_def set_rect_def
      Let_def numeral_2_eq_2)

section \<open>The rejection set of the log-posterior\<close>

lemma increasing_from_iff:
  "N \<le> length EBV \<Longrightarrow> 1 \<le> i \<Longrightarrow>
   increasing_from EBV N i = Inr (\<forall>k. i \<le> k \<and> k < N \<longrightarrow> EBV ! (k - 1) \<le> EBV ! k)"
proof (induction EBV N i rule: increasing_from.induct)
  case (1 EBV N i)
  show ?case
  proof (cases "i < N")
    case False
    then show ?thesis by (simp add: increasing_from.simps)
  next
    case True
    with "1.prems" have inb: "i < length EBV" "0 < i" by simp_all
    show ?thesis
    proof (cases "EBV ! i - EBV ! (i - 1) < 0")
      case neg: True
      then have "\<not> (\<forall>k. i \<le> k \<and> k < N \<longrightarrow> EBV ! (k - 1) \<le> EBV ! k)"
        using True by (intro notI) (auto dest!: spec [of _ i])
      with neg True inb show ?thesis
        by (subst increasing_from.simps) simp
    next
      case nonneg: False
      have step: "increasing_from EBV N (Suc i) =
          Inr (\<forall>k. Suc i \<le> k \<and> k < N \<longrightarrow> EBV ! (k - 1) \<le> EBV ! k)"
        using "1.IH" True inb nonneg "1.prems" by simp
      have "(\<forall>k. i \<le> k \<and> k < N \<longrightarrow> EBV ! (k - 1) \<le> EBV ! k) \<longleftrightarrow>
            (\<forall>k. Suc i \<le> k \<and> k < N \<longrightarrow> EBV ! (k - 1) \<le> EBV ! k)"
      proof -
        have Pi: "EBV ! (i - 1) \<le> EBV ! i" using nonneg by simp
        show ?thesis by (metis Pi Suc_leD Suc_leI le_neq_implies_less)
      qed
      with step nonneg True inb show ?thesis
        by (subst increasing_from.simps) simp
    qed
  qed
qed

text \<open>
  C1.  For a vector \<open>E\<close> of length \<open>N \<ge> 1\<close> and a stack whose rectangle is set,
  \<open>lnp_los_extinction\<close> returns negative infinity whenever \<open>E[N-1] \<ge> rect.max[1]\<close>, or
  \<open>E[0] < 0\<close>, or \<open>E[i] < E[i-1]\<close> for some \<open>i\<close> with \<open>1 \<le> i < N\<close>.
\<close>

theorem lnp_rejects:
  assumes "length EBV = N" and "1 \<le> N"
    and "rect_of h (img_stack params) = Inr r"
    and "snd (max_r r) \<le> EBV ! (N - 1) \<or> EBV ! 0 < 0 \<or>
         (\<exists>i. 1 \<le> i \<and> i < N \<and> EBV ! i < EBV ! (i - 1))"
  shows "lnp_los_extinction rnd h EBV N params = Inr NegInf"
proof -
  have inc: "increasing_from EBV N 1 =
      Inr (\<forall>k. 1 \<le> k \<and> k < N \<longrightarrow> EBV ! (k - 1) \<le> EBV ! k)"
    using assms(1) by (intro increasing_from_iff) simp_all
  show ?thesis
  proof (cases "snd (max_r r) \<le> EBV ! (N - 1) \<or> EBV ! 0 < 0")
    case True
    with assms(1-3) show ?thesis by (auto simp: lnp_los_extinction_def)
  next
    case False
    with assms(4) obtain i where "1 \<le> i" "i < N" "EBV ! i < EBV ! (i - 1)" by blast
    then have "\<not> (\<forall>k. 1 \<le> k \<and> k < N \<longrightarrow> EBV ! (k - 1) \<le> EBV ! k)"
      by (intro notI) (auto dest!: spec [of _ i])
    with inc have "increasing_from EBV N 1 = Inr False" by simp
    with assms(1-3) False show ?thesis by (simp add: lnp_los_extinction_def)
  qed
qed

theorem lnp_rejects_witness:
  "lnp_los_extinction round_double ex_heap [0, 1/10, 1/20] 3 ex_params = Inr NegInf"
proof -
  have r: "rect_of ex_heap (img_stack ex_params) = Inr ex_rect"
    by (simp add: rect_of_def ex_params_def TLOSMCMCParams_new_def ex_stack_def ex_heap_def)
  have "\<exists>i. 1 \<le> i \<and> i < (3::nat) \<and> [0, 1/10, 1/20] ! i < [0, 1/10, 1/20::real] ! (i - 1)"
    by (rule exI [of _ 2]) (simp add: numeral_2_eq_2)
  then show ?thesis
    using lnp_rejects [of "[0, 1/10, 1/20]" 3 ex_heap ex_params ex_rect round_double] r by simp
qed

lemma ex_rect_of: "rect_of ex_heap ex_stack = Inr ex_rect"
  by (simp add: rect_of_def ex_stack_def ex_heap_def)

lemmas round_double_eval = round_double_def quantum_def double_unit_def round_half_even_def
  scale_up.simps scale_down.simps Let_def

lemmas los_integral_eval = los_integral_def rect_of_def los_start_def los_regions.simps
  region_dy_def region_step_def los_samples.simps add_samples.simps img_at_def at_double_def
  to_int_def region_break_def

lemma ex_los: "los_integral round_double ex_heap ex_stack [1/4, 3/4] 1 = Inr [6, 0]"
  by (simp add: los_integral_eval ex_stack_def ex_heap_def ex_rect_def round_double_eval
      numeral_2_eq_2 numeral_3_eq_3)

section \<open>The soft floor of the log-posterior\<close>

lemma soften_and_multiply_foldl:
  "soften_and_multiply p ls acc =
     foldl lnp_add acc
       (map (\<lambda>l. if l < 10 ^ 5 * p then c_log (l + p * exp (- l / p)) else c_log l) ls)"
  by (induction ls arbitrary: acc) (simp_all add: Let_def)

text \<open>
  C2.  For a state that none of the three tests rejects, with \<open>L\<close> the line integrals that
  \<open>los_integral\<close> returns, the log-posterior is the sum over the surfaces of
  \<open>log(L\<^sub>i + p0 * exp(-L\<^sub>i / p0))\<close> when \<open>L\<^sub>i < 10\<^sup>5 * p0\<close> and of \<open>log(L\<^sub>i)\<close> otherwise, with the
  reddening prior subtracted; a surface whose line integral is zero contributes \<open>log(p0)\<close>
  (for the positive \<open>p0\<close> of the data model).
\<close>

theorem lnp_accumulates:
  assumes "length EBV = N" and "1 \<le> N"
    and "rect_of h (img_stack params) = Inr r"
    and "EBV ! (N - 1) < snd (max_r r)" and "0 \<le> EBV ! 0"
    and "\<forall>i. 1 \<le> i \<and> i < N \<longrightarrow> EBV ! (i - 1) \<le> EBV ! i"
    and "los_integral rnd h (img_stack params) EBV (N - 1) = Inr L"
  shows "lnp_los_extinction rnd h EBV N params =
           Inr (reddening_prior (EBV_max params) (EBV ! (N - 1))
                  (foldl lnp_add (Finite 0)
                     (map (\<lambda>l. if l < 10 ^ 5 * p0 params
                                then c_log (l + p0 params * exp (- l / p0 params))
                                else c_log l) L))) \<and>
         (\<forall>i<length L. L ! i = 0 \<and> 0 < p0 params \<longrightarrow>
            (if L ! i < 10 ^ 5 * p0 params
             then c_log (L ! i + p0 params * exp (- (L ! i) / p0 params))
             else c_log (L ! i)) = Finite (ln (p0 params)))"
proof -
  have "increasing_from EBV N 1 =
      Inr (\<forall>k. 1 \<le> k \<and> k < N \<longrightarrow> EBV ! (k - 1) \<le> EBV ! k)"
    using assms(1) by (intro increasing_from_iff) simp_all
  with assms(6) have inc: "increasing_from EBV N 1 = Inr True" by simp
  have "lnp_los_extinction rnd h EBV N params =
      Inr (reddening_prior (EBV_max params) (EBV ! (N - 1))
             (soften_and_multiply (p0 params) L (Finite 0)))"
    using assms(1-5,7) inc by (simp add: lnp_los_extinction_def)
  moreover have "\<forall>i<length L. L ! i = 0 \<and> 0 < p0 params \<longrightarrow>
            (if L ! i < 10 ^ 5 * p0 params
             then c_log (L ! i + p0 params * exp (- (L ! i) / p0 params))
             else c_log (L ! i)) = Finite (ln (p0 params))"
    by (simp add: c_log_def)
  ultimately show ?thesis by (simp only: soften_and_multiply_foldl) 
qed

theorem lnp_accumulates_witness:
  "lnp_los_extinction round_double ex_heap [1/4, 3/4] 2 ex_params =
     Inr (Finite (ln (6 + exp (- 12) / 2) + ln (1 / 2)))"
proof -
  have r: "rect_of ex_heap (img_stack ex_params) = Inr ex_rect"
    by (simp add: ex_params_def TLOSMCMCParams_new_def ex_rect_of)
  have l: "los_integral round_double ex_heap (img_stack ex_params) [1/4, 3/4] (2 - 1) = Inr [6, 0]"
    using ex_los by (simp add: ex_params_def TLOSMCMCParams_new_def)
  have pos: "0 < 6 + exp (- 12 :: real) / 2" by (simp add: add_pos_pos)
  show ?thesis
    using lnp_accumulates [of "[1/4, 3/4]" 2 ex_heap ex_params ex_rect round_double "[6, 0]",
        OF _ _ r _ _ _ l] pos
    by (simp add: ex_rect_def ex_params_def TLOSMCMCParams_new_def reddening_prior_def c_log_def
        All_less_Suc2 nth_Cons' numeral_2_eq_2)
qed

section \<open>The line integral leaves the grid\<close>

lemma to_int_of_int:
  "- 2147483648 \<le> n \<Longrightarrow> n \<le> 2147483647 \<Longrightarrow> to_int (real_of_int n) = Inr n"
  by (simp add: to_int_def)

lemma to_int_of_int_plus_one:
  "- 2147483648 \<le> n + 1 \<Longrightarrow> n + 1 \<le> 2147483647 \<Longrightarrow> to_int (real_of_int n + 1) = Inr (n + 1)"
proof -
  assume "- 2147483648 \<le> n + 1" and "n + 1 \<le> 2147483647"
  then have "to_int (real_of_int (n + 1)) = Inr (n + 1)" by (rule to_int_of_int)
  then show ?thesis by simp
qed

lemma to_int_overflow:
  "n < - 2147483648 \<or> 2147483647 < n \<Longrightarrow> to_int (real_of_int n) = Inl CastOverflow"
  by (auto simp: to_int_def)

lemma los_samples_off_grid:
  assumes "j < N_samples"
    and "y_max \<le> \<lfloor>los_y v\<rfloor> + 1 \<or> \<lfloor>los_y v\<rfloor> < 0"
    and "- 2147483648 \<le> \<lfloor>los_y v\<rfloor>" and "\<lfloor>los_y v\<rfloor> + 1 \<le> 2147483647"
  shows "los_samples rnd h s y_max dy N_samples j v =
           Inr (v\<lparr>los_y_floor := Some (real_of_int \<lfloor>los_y v\<rfloor>),
                  los_y_ceil := Some (real_of_int \<lfloor>los_y v\<rfloor> + 1)\<rparr>)"
proof -
  have c: "to_int (real_of_int \<lfloor>los_y v\<rfloor> + 1) = Inr (\<lfloor>los_y v\<rfloor> + 1)"
    using assms(3,4) by (intro to_int_of_int_plus_one) linarith+
  have f: "to_int (real_of_int \<lfloor>los_y v\<rfloor>) = Inr \<lfloor>los_y v\<rfloor>"
    using assms(3,4) by (intro to_int_of_int) linarith+
  show ?thesis
    using assms(1,2) by (subst los_samples.simps) (auto simp: Let_def c f)
qed

lemma los_regions_resume:
  "los_regions rnd h s EBV N_regions N_samples y_max dx1 i v =
     (if i < N_regions then los_resume rnd h s EBV N_regions N_samples y_max dx1 i 0 v
      else Inr v)"
  by (subst los_regions.simps) (simp add: los_resume_def)

lemma los_samples_step:
  assumes "j < N_samples" and "\<lfloor>los_y v\<rfloor> + 1 < y_max" and "0 \<le> \<lfloor>los_y v\<rfloor>"
    and "\<lfloor>los_y v\<rfloor> + 1 \<le> 2147483647"
  shows "los_samples rnd h s y_max dy N_samples j v =
     (case add_samples rnd h s (los_x v) (los_y v) (real_of_int \<lfloor>los_y v\<rfloor>)
              (real_of_int \<lfloor>los_y v\<rfloor> + 1) \<lfloor>los_y v\<rfloor> (\<lfloor>los_y v\<rfloor> + 1) 0 (los_ret v) of
        Inl e \<Rightarrow> Inl e
      | Inr out \<Rightarrow>
          los_samples rnd h s y_max dy N_samples (Suc j)
            (v\<lparr>los_y_floor := Some (real_of_int \<lfloor>los_y v\<rfloor>),
               los_y_ceil := Some (real_of_int \<lfloor>los_y v\<rfloor> + 1),
               los_ret := out, los_x := los_x v + 1, los_y := rnd (los_y v + dy)\<rparr>))"
proof -
  have c: "to_int (real_of_int \<lfloor>los_y v\<rfloor> + 1) = Inr (\<lfloor>los_y v\<rfloor> + 1)"
    using assms(3,4) by (intro to_int_of_int_plus_one) linarith+
  have f: "to_int (real_of_int \<lfloor>los_y v\<rfloor>) = Inr \<lfloor>los_y v\<rfloor>"
    using assms(3,4) by (intro to_int_of_int) linarith+
  show ?thesis
    using assms(1-3) by (subst los_samples.simps) (simp add: Let_def c f)
qed

lemma los_resume_step:
  assumes "j < N_samples" and "Suc i < length EBV"
    and "\<lfloor>los_y v\<rfloor> + 1 < y_max" and "0 \<le> \<lfloor>los_y v\<rfloor>"
    and "\<lfloor>los_y v\<rfloor> + 1 \<le> 2147483647"
  shows "los_resume rnd h s EBV N_regions N_samples y_max dx1 i j v =
     (case add_samples rnd h s (los_x v) (los_y v) (real_of_int \<lfloor>los_y v\<rfloor>)
              (real_of_int \<lfloor>los_y v\<rfloor> + 1) \<lfloor>los_y v\<rfloor> (\<lfloor>los_y v\<rfloor> + 1) 0 (los_ret v) of
        Inl e \<Rightarrow> Inl e
      | Inr out \<Rightarrow>
          los_resume rnd h s EBV N_regions N_samples y_max dx1 i (Suc j)
            (v\<lparr>los_y_floor := Some (real_of_int \<lfloor>los_y v\<rfloor>),
               los_y_ceil := Some (real_of_int \<lfloor>los_y v\<rfloor> + 1),
               los_ret := out, los_x := los_x v + 1,
               los_y := rnd (los_y v + region_step rnd EBV N_samples dx1 i)\<rparr>))"
proof (cases "add_samples rnd h s (los_x v) (los_y v) (real_of_int \<lfloor>los_y v\<rfloor>)
              (real_of_int \<lfloor>los_y v\<rfloor> + 1) \<lfloor>los_y v\<rfloor> (\<lfloor>los_y v\<rfloor> + 1) 0 (los_ret v)")
  case (Inl e)
  then show ?thesis
    using assms(2) los_samples_step [OF assms(1,3,4,5), of rnd h s]
    by (simp add: los_resume_def region_dy_def)
next
  case (Inr out)
  then show ?thesis
    using assms(2) los_samples_step [OF assms(1,3,4,5), of rnd h s]
    by (simp add: los_resume_def region_dy_def)
qed




lemma ex_los_off_grid:
  "los_integral round_double ex_heap ex_stack [1/4, 7/4, 7/4] 2 = Inr [3, 0]"
  by (simp add: los_integral_eval ex_stack_def ex_heap_def ex_rect_def round_double_eval
      numeral_2_eq_2 numeral_3_eq_3)

section \<open>The element accesses of the line integral\<close>

lemma row_major_index: "a < n0 \<Longrightarrow> b < n1 \<Longrightarrow> a * n1 + b < n0 * (n1::nat)"
proof -
  assume a: "a < n0" and b: "b < n1"
  have "a * n1 + b < Suc a * n1" using b by simp
  also have "\<dots> \<le> n0 * n1" using a by (intro mult_le_mono1) simp
  finally show ?thesis .
qed

lemma img_at_errors:
  "img_at h s k x y \<noteq> Inl CastOverflow \<and> img_at h s k x y \<noteq> Inl NonFinite"
  by (auto simp: img_at_def at_double_def split: option.splits)

lemma img_at_in_bounds:
  assumes "surfaces_shaped h s n0 n1"
    and "0 \<le> x" "x < int n0" "0 \<le> y" "y < int n1"
  shows "img_at h s k x y \<noteq> Inl MatIndex"
proof (cases "k < length (img s)")
  case False
  then show ?thesis by (simp add: img_at_def)
next
  case True
  then have mem: "img s ! k \<in> set (img s)" by simp
  show ?thesis
  proof (cases "img s ! k")
    case None
    with True show ?thesis by (simp add: img_at_def)
  next
    case (Some a)
    show ?thesis
    proof (cases "mats h a")
      case None
      with Some True show ?thesis by (simp add: img_at_def)
    next
      case (Some m)
      with \<open>img s ! k = Some a\<close> mem assms(1)
      have shape: "rows m = n0" "cols m = n1" "length (data m) = n0 * n1"
        by (auto simp: surfaces_shaped_def list_all_iff split: option.splits)
      have "nat x * n1 + nat y < n0 * n1"
        using assms(2-5) by (intro row_major_index) simp_all
      with shape assms(2-5) have "at_double m x y \<noteq> Inl MatIndex"
        by (simp add: at_double_def)
      with Some \<open>img s ! k = Some a\<close> True show ?thesis by (simp add: img_at_def)
    qed
  qed
qed

lemma add_samples_in_bounds:
  assumes "surfaces_shaped h s n0 n1"
    and "0 \<le> x" "x < int n0"
    and "0 \<le> iyf" "iyf < int n1" "0 \<le> iyc" "iyc < int n1"
  shows "add_samples rnd h s x y yf yc iyf iyc k out \<noteq> Inl MatIndex \<and>
         add_samples rnd h s x y yf yc iyf iyc k out \<noteq> Inl CastOverflow \<and>
         add_samples rnd h s x y yf yc iyf iyc k out \<noteq> Inl NonFinite"
  using assms
proof (induction rnd h s x y yf yc iyf iyc k out rule: add_samples.induct)
  case (1 rnd h s x y yf yc iyf iyc k out)
  have a: "img_at h s k x iyf \<noteq> Inl MatIndex"
    using "1.prems" by (intro img_at_in_bounds [where ?n0.0 = n0 and ?n1.0 = n1]) simp_all
  have b: "img_at h s k x iyc \<noteq> Inl MatIndex"
    using "1.prems" by (intro img_at_in_bounds [where ?n0.0 = n0 and ?n1.0 = n1]) simp_all
  note a' = img_at_errors [of h s k x iyf] and b' = img_at_errors [of h s k x iyc]
  show ?case
  proof (cases "k < N_images s")
    case False
    then show ?thesis by (subst (1 2 3) add_samples.simps) simp
  next
    case True
    show ?thesis
    proof (cases "img_at h s k x iyf")
      case (Inl e)
      with a a' True show ?thesis by (subst (1 2 3) add_samples.simps) auto
    next
      case va: (Inr va)
      show ?thesis
      proof (cases "img_at h s k x iyc")
        case (Inl e)
        with b b' va True show ?thesis by (subst (1 2 3) add_samples.simps) auto
      next
        case vb: (Inr vb)
        show ?thesis
        proof (cases "k < length out")
          case False
          with va vb True show ?thesis by (subst (1 2 3) add_samples.simps) simp
        next
          case len: True
          let ?out = "out[k := rnd (out ! k
                                     + rnd (rnd (rnd (yc - y) * va) + rnd (rnd (y - yf) * vb)))]"
          have "add_samples rnd h s x y yf yc iyf iyc (Suc k) ?out \<noteq> Inl MatIndex \<and>
                add_samples rnd h s x y yf yc iyf iyc (Suc k) ?out \<noteq> Inl CastOverflow \<and>
                add_samples rnd h s x y yf yc iyf iyc (Suc k) ?out \<noteq> Inl NonFinite"
            using "1.IH" [OF True va vb len] "1.prems" by simp
          with va vb True len show ?thesis by (subst (1 2 3) add_samples.simps) simp
        qed
      qed
    qed
  qed
qed

lemma region_break_stored:
  assumes "los_y_ceil v = None \<or> floor_ceil_stored v"
  shows "region_break y_max v = Inl Uninitialised \<or> (\<exists>b. region_break y_max v = Inr b)"
proof (cases "los_y_ceil v")
  case None
  then show ?thesis by (simp add: region_break_def)
next
  case (Some yc)
  with assms obtain yf where yf: "los_y_floor v = Some yf" "yf = real_of_int \<lfloor>yf\<rfloor>"
      "- 2147483648 \<le> \<lfloor>yf\<rfloor>" "\<lfloor>yf\<rfloor> + 1 \<le> 2147483647" "yc = yf + 1"
    by (auto simp: floor_ceil_stored_def split: option.splits)
  have c: "to_int (real_of_int \<lfloor>yf\<rfloor> + 1) = Inr (\<lfloor>yf\<rfloor> + 1)"
    using yf(3,4) by (intro to_int_of_int_plus_one) linarith+
  have f: "to_int (real_of_int \<lfloor>yf\<rfloor>) = Inr \<lfloor>yf\<rfloor>"
    using yf(3,4) by (intro to_int_of_int) linarith+
  from yf(2) c f have "to_int (yf + 1) = Inr (\<lfloor>yf\<rfloor> + 1)" "to_int yf = Inr \<lfloor>yf\<rfloor>"
    by simp_all
  with Some yf(1,5) show ?thesis by (auto simp: region_break_def)
qed

text \<open>
  The sample loop of one region along a sequence \<open>Y\<close> of values of \<open>y\<close> whose floors and
  ceilings are values of \<^verbatim>\<open>int\<close>: no undefined conversion, no access out of range, and
  unless the loop breaks it ends at the \<open>x\<close> and the \<open>y\<close> of the next region.
\<close>

lemma los_samples_track:
  fixes Y :: "nat \<Rightarrow> real"
  assumes "surfaces_shaped h s n0 n1"
    and "los_x v = int X" and "X + (N_samples - j) \<le> n0"
    and "los_y v = Y X"
    and "\<forall>x. X \<le> x \<and> x < X + (N_samples - j) \<longrightarrow> Y (Suc x) = rnd (Y x + dy)"
    and "\<forall>x<n0. - 2147483648 \<le> \<lfloor>Y x\<rfloor> \<and> \<lfloor>Y x\<rfloor> + 1 \<le> 2147483647"
    and "los_y_ceil v = None \<or> floor_ceil_stored v"
  shows "los_samples rnd h s (int n1) dy N_samples j v \<noteq> Inl MatIndex \<and>
         los_samples rnd h s (int n1) dy N_samples j v \<noteq> Inl CastOverflow \<and>
         los_samples rnd h s (int n1) dy N_samples j v \<noteq> Inl NonFinite \<and>
         (\<forall>v'. los_samples rnd h s (int n1) dy N_samples j v = Inr v' \<longrightarrow>
               (los_y_ceil v' = None \<or> floor_ceil_stored v') \<and>
               (region_break (int n1) v' = Inr False \<longrightarrow>
                  los_x v' = int (X + (N_samples - j)) \<and> los_y v' = Y (X + (N_samples - j))))"
  using assms
proof (induction rnd h s "int n1" dy N_samples j v arbitrary: X rule: los_samples.induct)
  case (1 rnd h s dy N_samples j v)
  let ?f = "\<lfloor>los_y v\<rfloor>"
  show ?case
  proof (cases "j < N_samples")
    case False
    with "1.prems"(2,4,7) show ?thesis by (subst (1 2 3 4) los_samples.simps) simp
  next
    case True
    with "1.prems"(3) have "X < n0" by simp
    with "1.prems"(4,6) have range: "- 2147483648 \<le> ?f" "?f + 1 \<le> 2147483647" by simp_all
    have c: "to_int (real_of_int ?f + 1) = Inr (?f + 1)"
      using range by (intro to_int_of_int_plus_one) linarith+
    have f: "to_int (real_of_int ?f) = Inr ?f"
      using range by (intro to_int_of_int) linarith+
    let ?v1 = "v\<lparr>los_y_floor := Some (real_of_int ?f), los_y_ceil := Some (real_of_int ?f + 1)\<rparr>"
    have stored: "floor_ceil_stored (?v1\<lparr>los_ret := out, los_x := x', los_y := y'\<rparr>)"
        "floor_ceil_stored ?v1" for out x' y'
      using range by (simp_all add: floor_ceil_stored_def)
    show ?thesis
    proof (cases "int n1 \<le> ?f + 1 \<or> ?f < 0")
      case off: True
      then have "region_break (int n1) ?v1 = Inr True"
        by (auto simp: region_break_def c f)
      with stored(2) show ?thesis
        unfolding los_samples_off_grid [OF True off range] by simp
    next
      case False
      then have grid: "?f + 1 < int n1" "0 \<le> ?f" by simp_all
      note step = los_samples_step [OF True grid range(2), of rnd h s]
      have x: "0 \<le> los_x v" "los_x v < int n0" using "1.prems"(2) \<open>X < n0\<close> by simp_all
      note acc = add_samples_in_bounds [OF "1.prems"(1) x, of ?f "?f + 1" rnd "los_y v"
          "real_of_int ?f" "real_of_int ?f + 1" 0 "los_ret v"]
      show ?thesis
      proof (cases "add_samples rnd h s (los_x v) (los_y v) (real_of_int ?f) (real_of_int ?f + 1)
                      ?f (?f + 1) 0 (los_ret v)")
        case (Inl e)
        with acc grid show ?thesis unfolding step by auto
      next
        case (Inr out)
        let ?v2 = "v\<lparr>los_y_floor := Some (real_of_int ?f),
               los_y_ceil := Some (real_of_int ?f + 1),
               los_ret := out, los_x := los_x v + 1, los_y := rnd (los_y v + dy)\<rparr>"
        have not_off: "\<not> int n1 \<le> ?f + 1" "\<not> ?f < 0"
          using grid by simp_all
        have y2: "los_y ?v2 = Y (Suc X)" using "1.prems"(4,5) True by simp
        have x2: "los_x ?v2 = int (Suc X)" using "1.prems"(2) by simp
        have room: "Suc X + (N_samples - Suc j) \<le> n0" using "1.prems"(3) True by simp
        have rec: "\<forall>x. Suc X \<le> x \<and> x < Suc X + (N_samples - Suc j) \<longrightarrow> Y (Suc x) = rnd (Y x + dy)"
          using "1.prems"(5) True by auto
        have eq: "Suc X + (N_samples - Suc j) = X + (N_samples - j)" using True by simp
        have ih: "los_samples rnd h s (int n1) dy N_samples (Suc j) ?v2 \<noteq> Inl MatIndex \<and>
         los_samples rnd h s (int n1) dy N_samples (Suc j) ?v2 \<noteq> Inl CastOverflow \<and>
         los_samples rnd h s (int n1) dy N_samples (Suc j) ?v2 \<noteq> Inl NonFinite \<and>
         (\<forall>v'. los_samples rnd h s (int n1) dy N_samples (Suc j) ?v2 = Inr v' \<longrightarrow>
               (los_y_ceil v' = None \<or> floor_ceil_stored v') \<and>
               (region_break (int n1) v' = Inr False \<longrightarrow>
                  los_x v' = int (Suc X + (N_samples - Suc j)) \<and>
                  los_y v' = Y (Suc X + (N_samples - Suc j))))"
          using stored(1) [where out = out and x' = "los_x v + 1" and y' = "rnd (los_y v + dy)"]
          by (intro "1.hyps" [OF True refl refl refl c not_off(1) f not_off(2) Inr
                "1.prems"(1) x2 room y2 rec "1.prems"(6)]) simp
        from ih show ?thesis unfolding step Inr sum.case eq .
      qed
    qed
  qed
qed

lemma los_regions_track:
  assumes "surfaces_shaped h s n0 n1"
    and "los_x v = int (i * N_samples)" and "N_regions * N_samples \<le> n0"
    and "los_y v = los_y_at rnd r EBV N_samples (i * N_samples)"
    and "\<forall>x<n0. - 2147483648 \<le> \<lfloor>los_y_at rnd r EBV N_samples x\<rfloor> \<and>
                 \<lfloor>los_y_at rnd r EBV N_samples x\<rfloor> + 1 \<le> 2147483647"
    and "los_y_ceil v = None \<or> floor_ceil_stored v"
  shows "los_regions rnd h s EBV N_regions N_samples (int n1) (snd (dx r)) i v \<noteq> Inl MatIndex \<and>
         los_regions rnd h s EBV N_regions N_samples (int n1) (snd (dx r)) i v
           \<noteq> Inl CastOverflow \<and>
         los_regions rnd h s EBV N_regions N_samples (int n1) (snd (dx r)) i v \<noteq> Inl NonFinite"
  using assms
proof (induction rnd h s EBV N_regions N_samples "int n1" "snd (dx r)" i v
    rule: los_regions.induct)
  case (1 rnd h s EBV N_regions N_samples i v)
  let ?Y = "los_y_at rnd r EBV N_samples"
  show ?case
  proof (cases "i < N_regions")
    case False
    then show ?thesis by (subst (1 2 3) los_regions.simps) simp
  next
    case True
    then have "Suc i * N_samples \<le> N_regions * N_samples" by (intro mult_le_mono1) simp
    with "1.prems"(3) have room: "i * N_samples + (N_samples - 0) \<le> n0" by simp
    show ?thesis
    proof (cases "region_dy rnd EBV N_samples (snd (dx r)) i")
      case (Inl e)
      then have "e = ArrayIndex" by (auto simp: region_dy_def split: if_splits)
      with Inl True show ?thesis by (subst (1 2 3) los_regions.simps) simp
    next
      case dy: (Inr dy)
      then have dy_eq: "dy = region_step rnd EBV N_samples (snd (dx r)) i"
        by (auto simp: region_dy_def split: if_splits)
      have rec: "\<forall>x. i * N_samples \<le> x \<and> x < i * N_samples + (N_samples - 0) \<longrightarrow>
                   ?Y (Suc x) = rnd (?Y x + dy)"
      proof (intro allI impI)
        fix x assume x: "i * N_samples \<le> x \<and> x < i * N_samples + (N_samples - 0)"
        then have "0 < N_samples" by (cases N_samples) simp_all
        with x have "x div N_samples = i"
          by (intro div_nat_eqI) (simp_all add: mult.commute)
        then show "?Y (Suc x) = rnd (?Y x + dy)" by (simp add: dy_eq)
      qed
      note inner = los_samples_track [where Y = ?Y and X = "i * N_samples" and j = 0,
          OF "1.prems"(1,2) room "1.prems"(4) rec "1.prems"(5,6)]
      show ?thesis
      proof (cases "los_samples rnd h s (int n1) dy N_samples 0 v")
        case (Inl e)
        with inner dy True show ?thesis by (subst (1 2 3) los_regions.simps) auto
      next
        case v': (Inr v')
        with inner have st: "los_y_ceil v' = None \<or> floor_ceil_stored v'"
          and tr: "region_break (int n1) v' = Inr False \<Longrightarrow>
                   los_x v' = int (i * N_samples + N_samples) \<and>
                   los_y v' = ?Y (i * N_samples + N_samples)"
          by simp_all
        from region_break_stored [OF st, of "int n1"] show ?thesis
        proof (elim disjE exE)
          assume "region_break (int n1) v' = Inl Uninitialised"
          with v' dy True show ?thesis by (subst (1 2 3) los_regions.simps) simp
        next
          fix b assume b: "region_break (int n1) v' = Inr b"
          show ?thesis
          proof (cases b)
            case True
            with b v' dy \<open>i < N_regions\<close> show ?thesis
              by (subst (1 2 3) los_regions.simps) simp
          next
            case False
            with b tr have "los_x v' = int (Suc i * N_samples)"
                "los_y v' = ?Y (Suc i * N_samples)"
              by (simp_all add: add.commute)
            then have
              "los_regions rnd h s EBV N_regions N_samples (int n1) (snd (dx r)) (Suc i) v'
                 \<noteq> Inl MatIndex \<and>
               los_regions rnd h s EBV N_regions N_samples (int n1) (snd (dx r)) (Suc i) v'
                 \<noteq> Inl CastOverflow \<and>
               los_regions rnd h s EBV N_regions N_samples (int n1) (snd (dx r)) (Suc i) v'
                 \<noteq> Inl NonFinite"
              using b False
              by (intro "1.hyps" [OF \<open>i < N_regions\<close> dy v' _ _ "1.prems"(1) _ "1.prems"(3) _
                    "1.prems"(5) st]) simp_all
            with False b v' dy \<open>i < N_regions\<close> show ?thesis
              by (subst (1 2 3) los_regions.simps) simp
          qed
        qed
      qed
    qed
  qed
qed

text \<open>
  C10.  With the rectangle set, \<open>N_regions \<ge> 1\<close> dividing \<open>N_bins[0]\<close>, every surface of
  shape \<open>(N_bins[0], N_bins[1])\<close>, sizes that are values of \<^verbatim>\<open>int\<close>, a nonzero \<open>dx[1]\<close>, and
  at every distance bin \<open>x\<close> a value of \<open>y\<close> whose floor and ceiling are values of \<^verbatim>\<open>int\<close>,
  no \<open>at(x, y)\<close> of \<open>los_integral\<close> has an index out of range: the run ends neither in the
  error \<open>MatIndex\<close>, which is what \<open>at_double\<close> returns for an \<open>x\<close> outside \<open>[0, N_bins[0])\<close>
  or a \<open>y\<close> outside \<open>[0, N_bins[1])\<close>, nor in an undefined conversion of \<open>y\<close> to a column, nor
  with a \<open>y\<close> that is no number.  This holds for every rounding of the arithmetic.
\<close>

theorem los_integral_in_bounds:
  assumes "rect_of h s = Inr r"
    and "1 \<le> N_regions" and "N_regions dvd fst (N_bins r)"
    and "surfaces_shaped h s (fst (N_bins r)) (snd (N_bins r))"
    and "int_sized s r" and "snd (dx r) \<noteq> 0"
    and "\<forall>x<fst (N_bins r).
           - 2147483648 \<le> \<lfloor>los_y_at rnd r EBV (fst (N_bins r) div N_regions) x\<rfloor> \<and>
           \<lfloor>los_y_at rnd r EBV (fst (N_bins r) div N_regions) x\<rfloor> + 1 \<le> 2147483647"
  shows "los_integral rnd h s EBV N_regions \<noteq> Inl MatIndex \<and>
         los_integral rnd h s EBV N_regions \<noteq> Inl CastOverflow \<and>
         los_integral rnd h s EBV N_regions \<noteq> Inl NonFinite"
proof -
  let ?S = "fst (N_bins r) div N_regions"
  have "N_regions * ?S \<le> fst (N_bins r)" using assms(3) by simp
  then have "los_regions rnd h s EBV N_regions ?S (int (snd (N_bins r))) (snd (dx r)) 0
               (los_start rnd s r EBV) \<noteq> Inl MatIndex \<and>
             los_regions rnd h s EBV N_regions ?S (int (snd (N_bins r))) (snd (dx r)) 0
               (los_start rnd s r EBV) \<noteq> Inl CastOverflow \<and>
             los_regions rnd h s EBV N_regions ?S (int (snd (N_bins r))) (snd (dx r)) 0
               (los_start rnd s r EBV) \<noteq> Inl NonFinite"
    using assms(4,7)
    by (intro los_regions_track [where ?n0.0 = "fst (N_bins r)"]) (simp_all add: los_start_def)
  with assms(1,6) show ?thesis
    by (auto simp: los_integral_def split: sum.splits)
qed

lemma ex_shaped: "surfaces_shaped ex_heap ex_stack 2 4"
  by (simp add: surfaces_shaped_def ex_heap_def ex_stack_def)

lemma ex_y_at:
  "los_y_at round_double ex_rect [1/4, 7/4, 7/4] 1 0 = 1 / 2"
  "los_y_at round_double ex_rect [1/4, 7/4, 7/4] 1 (Suc 0) = 7 / 2"
  by (simp_all add: region_step_def ex_rect_def round_double_eval)

theorem los_integral_in_bounds_witness:
  "los_integral round_double ex_heap ex_stack [1/4, 7/4, 7/4] 2 \<noteq> Inl MatIndex \<and>
   los_integral round_double ex_heap ex_stack [1/4, 7/4, 7/4] 2 \<noteq> Inl CastOverflow \<and>
   los_integral round_double ex_heap ex_stack [1/4, 7/4, 7/4] 2 \<noteq> Inl NonFinite"
proof -
  have "\<forall>x<fst (N_bins ex_rect).
           - 2147483648 \<le> \<lfloor>los_y_at round_double ex_rect [1/4, 7/4, 7/4]
                               (fst (N_bins ex_rect) div 2) x\<rfloor> \<and>
           \<lfloor>los_y_at round_double ex_rect [1/4, 7/4, 7/4] (fst (N_bins ex_rect) div 2) x\<rfloor> + 1
             \<le> 2147483647"
    using ex_y_at by (simp add: ex_rect_def All_less_Suc2 numeral_2_eq_2)
  moreover have "int_sized ex_stack ex_rect"
    by (simp add: int_sized_def ex_stack_def ex_rect_def)
  ultimately show ?thesis
    using los_integral_in_bounds [OF ex_rect_of, of 2 round_double "[1/4, 7/4, 7/4]"] ex_shaped
    by (simp add: ex_rect_def)
qed

text \<open>
  Without the bound on \<open>y\<close> the column of an access is undefined.  On the 2 by 4 grid with
  \<open>dx[1] = 1/2\<close>, the profile \<open>E = (1073741823.75, 1073741823.75)\<close> starts at
  \<open>y = 2147483647.5\<close>, whose ceiling \<open>2\<^sup>3\<^sup>1\<close> is not an \<^verbatim>\<open>int\<close>.
\<close>

theorem los_integral_cast_undefined:
  "rect_of ex_heap ex_stack = Inr ex_rect \<and> (1::nat) \<le> 1 \<and> 1 dvd fst (N_bins ex_rect) \<and>
   surfaces_shaped ex_heap ex_stack (fst (N_bins ex_rect)) (snd (N_bins ex_rect)) \<and>
   int_sized ex_stack ex_rect \<and> snd (dx ex_rect) \<noteq> 0 \<and>
   los_integral round_double ex_heap ex_stack [4294967295 / 4, 4294967295 / 4] 1
     = Inl CastOverflow"
proof -
  have "los_integral round_double ex_heap ex_stack [4294967295 / 4, 4294967295 / 4] 1
     = Inl CastOverflow"
    by (simp add: los_integral_eval ex_stack_def ex_heap_def ex_rect_def round_double_eval)
  moreover have "int_sized ex_stack ex_rect"
    by (simp add: int_sized_def ex_stack_def ex_rect_def)
  ultimately show ?thesis using ex_rect_of ex_shaped by (simp add: ex_rect_def)
qed

section \<open>The error of the rounding to double\<close>










section \<open>The line integral over constant surfaces\<close>


















text \<open>Without rounding the two bounds are zero: the line integral is \<open>c * N_bins[0]\<close>.\<close>

lemma sum_error_exact: "sum_error 0 0 c n = 0"
  by (induction n) (simp_all add: sample_error_def)








section \<open>The random initial state\<close>

lemma fill_EBV_run:
  assumes "length EBV = N" and "i \<le> N"
    and "\<forall>k<i. EBV ! k = (\<Sum>m\<le>k. 0.5 * mu * r0 m)"
  shows "\<exists>E. fill_EBV mu N i EBV (\<lambda>n. r0 (i + n)) = Inr (E, \<lambda>n. r0 (N + n)) \<and>
             length E = N \<and> (\<forall>k<N. E ! k = (\<Sum>m\<le>k. 0.5 * mu * r0 m))"
  using assms
proof (induction "N - i" arbitrary: i EBV)
  case 0
  then have "i = N" by simp
  with "0.prems" show ?case by (subst fill_EBV.simps) simp
next
  case (Suc d)
  then have lt: "i < N" by simp
  define e where "e = (\<Sum>m\<le>i. 0.5 * mu * r0 m)"
  have e: "(if 0 < i then 0.5 * mu * r0 i + EBV ! (i - 1) else 0.5 * mu * r0 i) = e"
  proof (cases i)
    case 0
    then show ?thesis by (simp add: e_def)
  next
    case (Suc i')
    then have "EBV ! i' = (\<Sum>m\<le>i'. 0.5 * mu * r0 m)" using Suc.prems(3) by simp
    with Suc show ?thesis by (simp add: e_def)
  qed
  have step: "fill_EBV mu N i EBV (\<lambda>n. r0 (i + n)) =
      fill_EBV mu N (Suc i) (EBV[i := e]) (\<lambda>n. r0 (Suc i + n))"
  proof (cases "0 < i")
    case True
    with e have "0.5 * mu * r0 i + EBV ! (i - 1) = e" by simp
    with True lt Suc.prems(1) show ?thesis
      by (subst fill_EBV.simps) (simp add: gsl_rng_uniform_def Let_def)
  next
    case False
    with e have "0.5 * mu * r0 i = e" by simp
    with False lt Suc.prems(1) show ?thesis
      by (subst fill_EBV.simps) (simp add: gsl_rng_uniform_def Let_def)
  qed
  have filled: "\<forall>k<Suc i. (EBV[i := e]) ! k = (\<Sum>m\<le>k. 0.5 * mu * r0 m)"
    using Suc.prems(1,3) lt by (auto simp: less_Suc_eq e_def)
  have "d = N - Suc i" using Suc.hyps(2) by simp
  from Suc.hyps(1) [OF this _ _ filled] Suc.prems(1) lt
  show ?case unfolding step by simp
qed

lemma scale_EBV_run:
  assumes "length EBV = N" and "i \<le> N"
  shows "\<exists>E. scale_EBV f N i EBV = Inr E \<and> length E = N \<and>
             (\<forall>k<N. E ! k = (if i \<le> k then EBV ! k * f else EBV ! k))"
  using assms
proof (induction "N - i" arbitrary: i EBV)
  case 0
  then have "i = N" by simp
  with "0.prems" show ?case by (subst scale_EBV.simps) simp
next
  case (Suc d)
  then have lt: "i < N" by simp
  have step: "scale_EBV f N i EBV = scale_EBV f N (Suc i) (EBV[i := EBV ! i * f])"
    using lt Suc.prems(1) by (subst scale_EBV.simps) simp
  have "d = N - Suc i" using Suc.hyps(2) by simp
  from Suc.hyps(1) [OF this, of "EBV[i := EBV ! i * f]"] Suc.prems(1) lt
  obtain E where run: "scale_EBV f N (Suc i) (EBV[i := EBV ! i * f]) = Inr E"
    and len: "length E = N"
    and nth: "\<forall>k<N. E ! k = (if Suc i \<le> k then (EBV[i := EBV ! i * f]) ! k * f
                              else (EBV[i := EBV ! i * f]) ! k)"
    by auto
  have "\<forall>k<N. E ! k = (if i \<le> k then EBV ! k * f else EBV ! k)"
  proof (intro allI impI)
    fix k assume k: "k < N"
    show "E ! k = (if i \<le> k then EBV ! k * f else EBV ! k)"
    proof (cases "k = i")
      case True
      with nth k Suc.prems(1) show ?thesis by simp
    next
      case False
      with nth k show ?thesis by (auto simp: Suc_le_eq)
    qed
  qed
  with run len show ?case unfolding step by simp
qed

lemma cumulative_bounds:
  fixes r :: "nat \<Rightarrow> real"
  assumes "\<forall>n. 0 \<le> r n" and "0 \<le> mu"
  shows "0 \<le> (\<Sum>m\<le>k. 0.5 * mu * r m)"
    and "(\<Sum>m\<le>k. 0.5 * mu * r m) \<le> (\<Sum>m\<le>Suc k. 0.5 * mu * r m)"
proof -
  show "0 \<le> (\<Sum>m\<le>k. 0.5 * mu * r m)"
    using assms by (intro sum_nonneg) simp
  show "(\<Sum>m\<le>k. 0.5 * mu * r m) \<le> (\<Sum>m\<le>Suc k. 0.5 * mu * r m)"
    using assms by simp
qed

lemma cumulative_below_half:
  assumes "uniform_range r" and "0 < mu"
  shows "(\<Sum>m\<le>k. 0.5 * mu * r m) < 0.5 * mu * real (Suc k)"
proof -
  have r: "\<And>n. r n < 1" using assms(1) by (simp add: uniform_range_def)
  have "(\<Sum>m\<le>k. 0.5 * mu * r m) < (\<Sum>m\<le>k. 0.5 * mu)"
    using r assms(2) by (intro sum_strict_mono) simp_all
  then show ?thesis by (simp add: algebra_simps)
qed

text \<open>
  C4.  For \<open>N \<ge> 1\<close>, \<open>rect.max[1] > 0\<close> and a buffer of \<open>N\<close> entries, whatever the draws
  are as long as none is negative (those of \<open>gsl_rng_uniform\<close> lie in \<open>[0, 1)\<close>), the vector
  that \<open>gen_rand_los_extinction\<close> leaves in the buffer has \<open>E[0] \<ge> 0\<close>, \<open>E[i] \<ge> E[i-1]\<close>
  for \<open>1 \<le> i < N\<close> and \<open>E[N-1] < rect.max[1]\<close>; it is the cumulative sum of the values
  \<open>0.5 * (rect.max[1] / N) * u\<close>, multiplied by \<open>0.9 * rect.max[1] / E[N-1]\<close> when that sum
  ends at or above \<open>0.95 * rect.max[1]\<close>.
\<close>

theorem gen_rand_state:
  assumes "rect_of h (img_stack params) = Inr rc"
    and "1 \<le> N" and "0 < snd (max_r rc)" and "length EBV = N" and "\<forall>n. 0 \<le> r n"
  shows "\<exists>E r'. gen_rand_los_extinction h EBV N r params = Inr (E, r') \<and> length E = N \<and>
           0 \<le> E ! 0 \<and> (\<forall>i. 1 \<le> i \<and> i < N \<longrightarrow> E ! (i - 1) \<le> E ! i) \<and>
           E ! (N - 1) < snd (max_r rc) \<and>
           (\<forall>i<N. E ! i =
              (if 0.95 * snd (max_r rc) \<le> (\<Sum>m\<le>N - 1. 0.5 * (snd (max_r rc) / real N) * r m)
               then (\<Sum>m\<le>i. 0.5 * (snd (max_r rc) / real N) * r m) *
                    (0.9 * snd (max_r rc) / (\<Sum>m\<le>N - 1. 0.5 * (snd (max_r rc) / real N) * r m))
               else (\<Sum>m\<le>i. 0.5 * (snd (max_r rc) / real N) * r m)))"
proof -
  define ceil where "ceil = snd (max_r rc)"
  define mu where "mu = ceil / real N"
  define C where "C k = (\<Sum>m\<le>k. 0.5 * mu * r m)" for k
  have ceil: "0 < ceil" using assms(3) by (simp add: ceil_def)
  have mu: "0 \<le> mu" using assms(2) ceil by (simp add: mu_def)
  have C0: "0 \<le> C k" for k
    using cumulative_bounds(1) [OF assms(5) mu] by (simp add: C_def)
  have Cmono: "C k \<le> C (Suc k)" for k
    using cumulative_bounds(2) [OF assms(5) mu] by (simp add: C_def)
  from fill_EBV_run [of EBV N 0 mu r] assms(4)
  obtain E where run: "fill_EBV mu N 0 EBV r = Inr (E, \<lambda>n. r (N + n))"
    and len: "length E = N" and nth: "\<forall>k<N. E ! k = C k"
    by (auto simp: C_def)
  have last: "E ! (N - 1) = C (N - 1)" using nth assms(2) by simp
  show ?thesis
  proof (cases "0.95 * ceil \<le> C (N - 1)")
    case False
    have res: "gen_rand_los_extinction h EBV N r params = Inr (E, \<lambda>n. r (N + n))"
      using assms(1,2) run len last False
      by (simp add: gen_rand_los_extinction_def Let_def ceil_def [symmetric] mu_def [symmetric])
    have first: "0 \<le> E ! 0" using nth assms(2) C0 [of 0] by simp
    have mono: "\<forall>i. 1 \<le> i \<and> i < N \<longrightarrow> E ! (i - 1) \<le> E ! i"
    proof (intro allI impI)
      fix i assume i: "1 \<le> i \<and> i < N"
      then obtain i' where i': "i = Suc i'" by (cases i) simp_all
      from Cmono [of i'] i i' nth show "E ! (i - 1) \<le> E ! i" by simp
    qed
    have below: "E ! (N - 1) < ceil" using last False ceil by simp
    have form: "\<forall>i<N. E ! i =
        (if 0.95 * ceil \<le> C (N - 1) then C i * (0.9 * ceil / C (N - 1)) else C i)"
      using nth False by simp
    show ?thesis
      using res len first mono below form
      unfolding ceil_def mu_def C_def by blast
  next
    case True
    define f where "f = 0.9 * ceil / C (N - 1)"
    have Cpos: "0 < C (N - 1)" using True ceil by simp
    then have f: "0 < f" using ceil by (simp add: f_def)
    from scale_EBV_run [of E N 0 f] len
    obtain E2 where run2: "scale_EBV f N 0 E = Inr E2"
      and len2: "length E2 = N" and nth2: "\<forall>k<N. E2 ! k = C k * f"
      using nth by auto
    have res: "gen_rand_los_extinction h EBV N r params = Inr (E2, \<lambda>n. r (N + n))"
      using assms(1,2) run len last True run2
      by (simp add: gen_rand_los_extinction_def Let_def ceil_def [symmetric] mu_def [symmetric]
          f_def)
    have first: "0 \<le> E2 ! 0" using nth2 assms(2) C0 [of 0] f by simp
    have mono: "\<forall>i. 1 \<le> i \<and> i < N \<longrightarrow> E2 ! (i - 1) \<le> E2 ! i"
    proof (intro allI impI)
      fix i assume i: "1 \<le> i \<and> i < N"
      then obtain i' where i': "i = Suc i'" by (cases i) simp_all
      from Cmono [of i'] f have "C i' * f \<le> C (Suc i') * f" by (simp add: mult_right_mono)
      with i i' nth2 show "E2 ! (i - 1) \<le> E2 ! i" by simp
    qed
    have "E2 ! (N - 1) = C (N - 1) * f" using nth2 assms(2) by simp
    also have "\<dots> = 0.9 * ceil" using Cpos by (simp add: f_def)
    finally have below: "E2 ! (N - 1) < ceil" using ceil by simp
    have form: "\<forall>i<N. E2 ! i =
        (if 0.95 * ceil \<le> C (N - 1) then C i * (0.9 * ceil / C (N - 1)) else C i)"
      using nth2 True by (simp add: f_def)
    show ?thesis
      using res len2 first mono below form
      unfolding ceil_def mu_def C_def by blast
  qed
qed

text \<open>
  With draws below 1 the cumulative sum ends below \<open>0.5 * rect.max[1]\<close>, so the rescaling
  is not taken; it is with larger draws (second run below).
\<close>

lemma uniform_draws_never_rescaled:
  assumes "uniform_range r" and "1 \<le> N" and "0 < c"
  shows "\<not> 0.95 * c \<le> (\<Sum>m\<le>N - 1. 0.5 * (c / real N) * r m)"
proof -
  have "(\<Sum>m\<le>N - 1. 0.5 * (c / real N) * r m) < 0.5 * (c / real N) * real (Suc (N - 1))"
    using assms by (intro cumulative_below_half) simp_all
  also have "\<dots> = 0.5 * c" using assms(2) by simp
  finally show ?thesis using assms(3) by simp
qed

theorem gen_rand_state_witness:
  "\<exists>E r'. gen_rand_los_extinction ex_heap [0, 0] 2 (\<lambda>n. 1/2) ex_params = Inr (E, r') \<and>
      length E = 2 \<and> 0 \<le> E ! 0 \<and> E ! 0 \<le> E ! 1 \<and> E ! 1 < 2"
proof -
  have r: "rect_of ex_heap (img_stack ex_params) = Inr ex_rect"
    by (simp add: ex_params_def TLOSMCMCParams_new_def ex_rect_of)
  from gen_rand_state [OF r, of 2 "[0, 0]" "\<lambda>n. 1/2"]
  obtain E r' where "gen_rand_los_extinction ex_heap [0, 0] 2 (\<lambda>n. 1/2) ex_params = Inr (E, r')"
    "length E = 2" "0 \<le> E ! 0" "\<forall>i. 1 \<le> i \<and> i < 2 \<longrightarrow> E ! (i - 1) \<le> E ! i"
    "E ! (2 - 1) < snd (max_r ex_rect)"
    by (auto simp: ex_rect_def)
  then show ?thesis by (auto simp: ex_rect_def intro!: exI [of _ E] exI [of _ r'])
qed

lemma ex_gen_rand:
  "gen_rand_los_extinction ex_heap [0, 0] 2 (\<lambda>n. 1/2) ex_params = Inr ([1/4, 1/2], \<lambda>n. 1/2)"
  by (simp add: gen_rand_los_extinction_def ex_params_def TLOSMCMCParams_new_def ex_rect_of
      ex_rect_def fill_EBV.simps gsl_rng_uniform_def Let_def numeral_2_eq_2)

lemma ex_gen_rand_rescaled:
  "gen_rand_los_extinction ex_heap [0, 0] 2 (\<lambda>n. 2) ex_params = Inr ([9/10, 9/5], \<lambda>n. 2)"
  by (simp add: gen_rand_los_extinction_def ex_params_def TLOSMCMCParams_new_def ex_rect_of
      ex_rect_def fill_EBV.simps scale_EBV.simps gsl_rng_uniform_def Let_def numeral_2_eq_2)

section \<open>The schedule of the sampler driver\<close>

lemma check_GR_converged:
  "list_all (\<lambda>g. g \<le> 1.2) gs \<Longrightarrow> check_GR N a gs = (True, [])"
  by (induction gs) (simp_all add: GR_threshold_def)

lemma check_GR_not_converged:
  "\<not> list_all (\<lambda>g. g \<le> 1.2) gs \<Longrightarrow>
   check_GR N a gs = (False, if a \<noteq> 2 then [Step (unat N div 5) False 0 1 0, Clear] else [])"
  by (induction gs) (auto simp: GR_threshold_def max_attempts_def not_le)

lemma recorded_count:
  fixes N :: "32 word"
  shows "unat (push_bit 0 1 * N) = (2 ^ 0 * unat N) mod 2 ^ 32"
    and "unat (push_bit 1 1 * N) = (2 ^ 1 * unat N) mod 2 ^ 32"
    and "unat (push_bit 2 1 * N) = (2 ^ 2 * unat N) mod 2 ^ 32"
proof -
  have "unat N < 2 ^ 32" using unsigned_less [of N, where ?'a = nat] by simp
  then show "unat (push_bit 0 1 * N) = (2 ^ 0 * unat N) mod 2 ^ 32" by simp
  show "unat (push_bit 1 1 * N) = (2 ^ 1 * unat N) mod 2 ^ 32"
    by (simp add: unat_word_ariths)
  show "unat (push_bit 2 1 * N) = (2 ^ 2 * unat N) mod 2 ^ 32"
    by (simp add: unat_word_ariths)
qed

lemma main_run_stop:
  "main_run N GR a True = ([], a, True)" "main_run N GR 3 c = ([], 3, c)"
  by (subst main_run.simps, simp add: max_attempts_def)+

lemma main_run_attempt:
  assumes "a < 3" and "b = Suc a"
  shows "main_run N GR a False =
     (if list_all (\<lambda>g. g \<le> 1.2) (GR a)
      then ([Step (unat (push_bit a 1 * N)) True 0 0.1 0, Get_GR_diagnostic], b, True)
      else (case main_run N GR b False of
              (rest, a', c) \<Rightarrow>
                ([Step (unat (push_bit a 1 * N)) True 0 0.1 0, Get_GR_diagnostic]
                   @ (if a \<noteq> 2 then [Step (unat N div 5) False 0 1 0, Clear] else []) @ rest,
                 a', c)))"
proof (cases "list_all (\<lambda>g. g \<le> 1.2) (GR a)")
  case True
  with assms show ?thesis
    by (subst main_run.simps)
      (simp add: max_attempts_def check_GR_converged main_run_stop(1))
next
  case False
  with assms show ?thesis
    by (subst main_run.simps)
      (simp add: max_attempts_def check_GR_not_converged split: prod.splits)
qed

text \<open>
  C5, as amended.  The calls of \<open>sample_los_extinction\<close>, for every \<open>N_steps\<close> and every
  outcome of the diagnostic: attempt \<open>a\<close> records \<open>(2\<^sup>a * N_steps) mod 2\<^sup>3\<^sup>2\<close> steps with bandwidth
  override 0.1; the run stops converged after the first attempt whose diagnostic values are
  all at most 1.2; after attempts 0 and 1 that did not converge, \<open>N_steps / 5\<close> steps that
  are not recorded, with bandwidth 1, and \<open>clear()\<close>; the chain is fetched and saved in all
  four cases.  For \<open>N_steps < 2\<^sup>3\<^sup>0\<close> the recorded counts are \<open>2\<^sup>a * N_steps\<close>.
\<close>

theorem main_run_schedule:
  "sample_los_extinction N_steps GR =
     (if list_all (\<lambda>g. g \<le> 1.2) (GR 0) then
        ([Set_scale 1.1, Set_replacement_bandwidth 0.75] @ burn_in N_steps @
         [Step ((2 ^ 0 * unat N_steps) mod 2 ^ 32) True 0 0.1 0, Get_GR_diagnostic] @
         [Get_chain, Save, Print_stats], True)
      else if list_all (\<lambda>g. g \<le> 1.2) (GR 1) then
        ([Set_scale 1.1, Set_replacement_bandwidth 0.75] @ burn_in N_steps @
         [Step ((2 ^ 0 * unat N_steps) mod 2 ^ 32) True 0 0.1 0, Get_GR_diagnostic] @
         [Step (unat N_steps div 5) False 0 1 0, Clear] @
         [Step ((2 ^ 1 * unat N_steps) mod 2 ^ 32) True 0 0.1 0, Get_GR_diagnostic] @
         [Get_chain, Save, Print_stats], True)
      else
        ([Set_scale 1.1, Set_replacement_bandwidth 0.75] @ burn_in N_steps @
         [Step ((2 ^ 0 * unat N_steps) mod 2 ^ 32) True 0 0.1 0, Get_GR_diagnostic] @
         [Step (unat N_steps div 5) False 0 1 0, Clear] @
         [Step ((2 ^ 1 * unat N_steps) mod 2 ^ 32) True 0 0.1 0, Get_GR_diagnostic] @
         [Step (unat N_steps div 5) False 0 1 0, Clear] @
         [Step ((2 ^ 2 * unat N_steps) mod 2 ^ 32) True 0 0.1 0, Get_GR_diagnostic] @
         [Get_chain, Save, Print_stats], list_all (\<lambda>g. g \<le> 1.2) (GR 2))) \<and>
   (unat N_steps < 2 ^ 30 \<longrightarrow>
      (2 ^ 0 * unat N_steps) mod 2 ^ 32 = 2 ^ 0 * unat N_steps \<and>
      (2 ^ 1 * unat N_steps) mod 2 ^ 32 = 2 ^ 1 * unat N_steps \<and>
      (2 ^ 2 * unat N_steps) mod 2 ^ 32 = 2 ^ 2 * unat N_steps)"
proof -
  have a2: "main_run N_steps GR 2 False =
     (if list_all (\<lambda>g. g \<le> 1.2) (GR 2)
      then ([Step (unat (push_bit 2 1 * N_steps)) True 0 0.1 0, Get_GR_diagnostic], 3, True)
      else (case main_run N_steps GR 3 False of
              (rest, a', c) \<Rightarrow>
                ([Step (unat (push_bit 2 1 * N_steps)) True 0 0.1 0, Get_GR_diagnostic]
                   @ (if (2::nat) \<noteq> 2 then [Step (unat N_steps div 5) False 0 1 0, Clear] else [])
                   @ rest,
                 a', c)))"
    by (rule main_run_attempt) simp_all
  have a1: "main_run N_steps GR 1 False =
     (if list_all (\<lambda>g. g \<le> 1.2) (GR 1)
      then ([Step (unat (push_bit 1 1 * N_steps)) True 0 0.1 0, Get_GR_diagnostic], 2, True)
      else (case main_run N_steps GR 2 False of
              (rest, a', c) \<Rightarrow>
                ([Step (unat (push_bit 1 1 * N_steps)) True 0 0.1 0, Get_GR_diagnostic]
                   @ (if (1::nat) \<noteq> 2 then [Step (unat N_steps div 5) False 0 1 0, Clear] else [])
                   @ rest,
                 a', c)))"
    by (rule main_run_attempt) simp_all
  have a0: "main_run N_steps GR 0 False =
     (if list_all (\<lambda>g. g \<le> 1.2) (GR 0)
      then ([Step (unat (push_bit 0 1 * N_steps)) True 0 0.1 0, Get_GR_diagnostic], 1, True)
      else (case main_run N_steps GR 1 False of
              (rest, a', c) \<Rightarrow>
                ([Step (unat (push_bit 0 1 * N_steps)) True 0 0.1 0, Get_GR_diagnostic]
                   @ (if (0::nat) \<noteq> 2 then [Step (unat N_steps div 5) False 0 1 0, Clear] else [])
                   @ rest,
                 a', c)))"
    by (rule main_run_attempt) simp_all
  have m2: "main_run N_steps GR 2 False =
      ([Step ((2 ^ 2 * unat N_steps) mod 2 ^ 32) True 0 0.1 0, Get_GR_diagnostic], 3,
       list_all (\<lambda>g. g \<le> 1.2) (GR 2))"
    unfolding a2 main_run_stop(2) recorded_count(3) by simp
  have m1: "main_run N_steps GR 1 False =
      (if list_all (\<lambda>g. g \<le> 1.2) (GR 1)
       then ([Step ((2 ^ 1 * unat N_steps) mod 2 ^ 32) True 0 0.1 0, Get_GR_diagnostic], 2, True)
       else ([Step ((2 ^ 1 * unat N_steps) mod 2 ^ 32) True 0 0.1 0, Get_GR_diagnostic,
              Step (unat N_steps div 5) False 0 1 0, Clear,
              Step ((2 ^ 2 * unat N_steps) mod 2 ^ 32) True 0 0.1 0, Get_GR_diagnostic], 3,
             list_all (\<lambda>g. g \<le> 1.2) (GR 2)))"
    unfolding a1 m2 recorded_count(2) by simp
  have m0: "main_run N_steps GR 0 False =
      (if list_all (\<lambda>g. g \<le> 1.2) (GR 0)
       then ([Step ((2 ^ 0 * unat N_steps) mod 2 ^ 32) True 0 0.1 0, Get_GR_diagnostic], 1, True)
       else if list_all (\<lambda>g. g \<le> 1.2) (GR 1)
       then ([Step ((2 ^ 0 * unat N_steps) mod 2 ^ 32) True 0 0.1 0, Get_GR_diagnostic,
              Step (unat N_steps div 5) False 0 1 0, Clear,
              Step ((2 ^ 1 * unat N_steps) mod 2 ^ 32) True 0 0.1 0, Get_GR_diagnostic], 2, True)
       else ([Step ((2 ^ 0 * unat N_steps) mod 2 ^ 32) True 0 0.1 0, Get_GR_diagnostic,
              Step (unat N_steps div 5) False 0 1 0, Clear,
              Step ((2 ^ 1 * unat N_steps) mod 2 ^ 32) True 0 0.1 0, Get_GR_diagnostic,
              Step (unat N_steps div 5) False 0 1 0, Clear,
              Step ((2 ^ 2 * unat N_steps) mod 2 ^ 32) True 0 0.1 0, Get_GR_diagnostic], 3,
             list_all (\<lambda>g. g \<le> 1.2) (GR 2)))"
    unfolding a0 m1 recorded_count(1) by simp
  have sched: "sample_los_extinction N_steps GR =
     (if list_all (\<lambda>g. g \<le> 1.2) (GR 0) then
        ([Set_scale 1.1, Set_replacement_bandwidth 0.75] @ burn_in N_steps @
         [Step ((2 ^ 0 * unat N_steps) mod 2 ^ 32) True 0 0.1 0, Get_GR_diagnostic] @
         [Get_chain, Save, Print_stats], True)
      else if list_all (\<lambda>g. g \<le> 1.2) (GR 1) then
        ([Set_scale 1.1, Set_replacement_bandwidth 0.75] @ burn_in N_steps @
         [Step ((2 ^ 0 * unat N_steps) mod 2 ^ 32) True 0 0.1 0, Get_GR_diagnostic] @
         [Step (unat N_steps div 5) False 0 1 0, Clear] @
         [Step ((2 ^ 1 * unat N_steps) mod 2 ^ 32) True 0 0.1 0, Get_GR_diagnostic] @
         [Get_chain, Save, Print_stats], True)
      else
        ([Set_scale 1.1, Set_replacement_bandwidth 0.75] @ burn_in N_steps @
         [Step ((2 ^ 0 * unat N_steps) mod 2 ^ 32) True 0 0.1 0, Get_GR_diagnostic] @
         [Step (unat N_steps div 5) False 0 1 0, Clear] @
         [Step ((2 ^ 1 * unat N_steps) mod 2 ^ 32) True 0 0.1 0, Get_GR_diagnostic] @
         [Step (unat N_steps div 5) False 0 1 0, Clear] @
         [Step ((2 ^ 2 * unat N_steps) mod 2 ^ 32) True 0 0.1 0, Get_GR_diagnostic] @
         [Get_chain, Save, Print_stats], list_all (\<lambda>g. g \<le> 1.2) (GR 2)))"
    unfolding sample_los_extinction_def m0 by simp
  show ?thesis
    unfolding sched by simp
qed

theorem main_run_schedule_witness:
  "sample_los_extinction 4000 GR_converged =
     ([Set_scale 1.1, Set_replacement_bandwidth 0.75,
       Step 800 False 0 0.5 0, Step 200 False 0 1 0, Step 800 False 0 0.5 0, Step 200 False 0 1 0,
       Step 800 False 0 0.5 0, Step 200 False 0 1 0, Step 800 False 0 0.5 0, Step 200 False 0 1 0,
       Clear, Step 4000 True 0 0.1 0, Get_GR_diagnostic, Get_chain, Save, Print_stats], True)"
  using main_run_schedule [of 4000 GR_converged]
  by (simp add: burn_in_def GR_converged_def)

text \<open>
  C5 as stated (attempt 2 records \<open>2\<^sup>2 * N_steps\<close> steps) fails for \<open>N_steps = 2\<^sup>3\<^sup>0\<close>
  when no attempt converges: the three recorded runs have \<open>2\<^sup>3\<^sup>0\<close>, \<open>2\<^sup>3\<^sup>1\<close> and 0 steps.
\<close>

theorem main_run_overflow:
  "recorded_steps (fst (sample_los_extinction 1073741824 GR_diverged))
     = [1073741824, 2147483648, 0] \<and>
   recorded_steps (fst (sample_los_extinction 1073741824 GR_diverged))
     \<noteq> [2 ^ 0 * 1073741824, 2 ^ 1 * 1073741824, 2 ^ 2 * 1073741824]"
  by (simp add: sample_los_extinction_def main_run.simps max_attempts_def GR_threshold_def
      burn_in_def GR_diverged_def)

section \<open>The inverse table on a concrete density\<close>

lemma ex_P_of_x:
  "fill_P_of_x ex_density False 0 1 3 0 0 [- 1, - 1, - 1] = ([0, 1, 4], 4)"
  by (simp add: fill_P_of_x.simps ex_density_def Let_def)

lemma u32_minus_one_values:
  "u32_minus_one 0 = 4294967295" "u32_minus_one (Suc 0) = 0" "u32_minus_one (Suc (Suc 0)) = 1"
  by (simp_all add: u32_minus_one_def)

lemma ex_replicate: "replicate 3 (- 1 :: real) = [- 1, - 1, - 1]"
  by (simp add: numeral_3_eq_3)

lemma ex_search:
  "search_x [0, 1, 4] 4 0 1 (1 / 2) 3 0 0 (Suc 0) (2, 0) = (- (2 / 8589934589), 0)"
  "search_x [0, 1, 4] 4 0 1 (1 / 2) 3 (Suc 0) (1 / 2) (Suc 0) (- (2 / 8589934589), 0)
     = (3 / 2, Suc 0)"
  "search_x [0, 1, 4] 4 0 1 (1 / 2) 3 (Suc (Suc 0)) 1 (Suc (Suc 0)) (3 / 2, Suc 0)
     = (2, Suc 0)"
  by (simp_all add: search_x.simps u32_minus_one_values Let_def)

lemma ex_invert:
  "invert_P [0, 1, 4] 4 0 1 (1 / 2) 3 0 (2, 0) [- 1, - 1, - 1] = [- (2 / 8589934589), 3 / 2, 2]"
  by (simp add: invert_P.simps ex_search Let_def)

text \<open>
  C6.  The claim: the entry stored at \<open>p\<^sub>i\<close> is the linear interpolation of \<open>x\<close> between
  \<open>x\<^sub>k\<^sub>-\<^sub>1\<close> and \<open>x\<^sub>k\<close> at \<open>p\<^sub>i\<close>.  For the density \<open>1 + 2x\<close> on \<open>[0, 2]\<close> with three knots the
  cumulative sums are 0, 1, 4.  At \<open>p\<^sub>1 = 1/2\<close> the constructor stores \<open>3/2\<close>, the
  interpolation is \<open>4/3\<close>; at \<open>p\<^sub>0 = 0\<close> it stores \<open>-2/8589934589\<close> (the \<open>i - 1\<close> of the
  slope wraps to \<open>2\<^sup>3\<^sup>2 - 1\<close>), the value at cumulative probability 0 is \<open>x_min = 0\<close>.
\<close>

theorem inverse_table_not_interpolated:
  "TDraw1D_new ex_density 0 2 3 False
     = Inr \<lparr>draw_x_min = 0, draw_x_max = 2, x_of_P = [- (2 / 8589934589), 3 / 2, 2]\<rparr> \<and>
   spec_inverse_entry [0, 1, 4] 4 0 1 (1 / 2) = Some (4 / 3) \<and>
   spec_inverse_entry [0, 1, 4] 4 0 1 0 = Some 0"
proof -
  have "TDraw1D_new ex_density 0 2 3 False
     = Inr \<lparr>draw_x_min = 0, draw_x_max = 2, x_of_P = [- (2 / 8589934589), 3 / 2, 2]\<rparr>"
    by (simp add: TDraw1D_new_def ex_replicate ex_P_of_x ex_invert Let_def)
  moreover have "spec_inverse_entry [0, 1, 4] 4 0 1 (1 / 2) = Some (4 / 3)"
    by (simp add: spec_inverse_entry_def upt_rec)
  moreover have "spec_inverse_entry [0, 1, 4] 4 0 1 0 = Some 0"
    by (simp add: spec_inverse_entry_def upt_rec)
  ultimately show ?thesis by simp
qed


lemma invert_P_length:
  "length (invert_P P_of_x P_norm xmin step dP samples i xk tab) = length tab"
proof (induction P_of_x P_norm xmin step dP samples i xk tab rule: invert_P.induct)
  case (1 P_of_x P_norm xmin step dP samples i xk tab)
  show ?case
  proof (cases "i < samples")
    case True
    with "1.IH" [OF True refl refl] show ?thesis
      by (subst invert_P.simps) (simp add: Let_def)
  next
    case False
    then show ?thesis by (subst invert_P.simps) simp
  qed
qed

text \<open>The part of C6 that holds: the last entry of the table is \<open>x_max\<close>.\<close>

lemma endpoint_forced:
  assumes "TDraw1D_new func xmin xmax samples is_log = Inr d"
  shows "length (x_of_P d) = samples \<and> x_of_P d ! (samples - 1) = xmax"
proof -
  from assms have s: "1 < samples"
    by (auto simp: TDraw1D_new_def split: if_splits)
  with assms show ?thesis
    by (auto simp: TDraw1D_new_def Let_def invert_P_length split: prod.splits)
qed

section \<open>The noise of the catalog generators\<close>

text \<open>
  C9.  The claim: the standard deviation of the noise of band \<open>k\<close> is
  \<open>0.02 + 0.1 * exp(mag[k] - mag_limit[k] - 1.5)\<close> on the noiseless magnitude of band \<open>k\<close>.
  Both loops index \<^verbatim>\<open>mag\<close> and \<^verbatim>\<open>mag_limit\<close> with the star index \<open>i\<close>.  For the first star
  (\<open>i = 0\<close>), with noiseless magnitudes 10, 12, 11, 11, 11, limits 20 and noise draws 0,
  the standard deviation of band 1 is computed from band 0 (\<open>exp(10 - 20 - 1.5)\<close>, not
  \<open>exp(12 - 20 - 1.5)\<close>); for the sixth star (\<open>i = 5\<close>) the index is outside the five
  entries of both arrays.
\<close>

theorem noise_stddev_uses_star_index:
  "(case synth_magnitudes 5 0 [10, 12, 11, 11, 11] 0 0 (\<lambda>k. 1) [20, 20, 20, 20, 20]
           [0, 0, 0, 0, 0] [0, 0, 0, 0, 0] (\<lambda>n. 0) of
      Inl e \<Rightarrow> False
    | Inr v \<Rightarrow>
        bv_observed v \<and> bv_mag v = [10, 12, 11, 11, 11] \<and>
        bv_err v ! 1 = 0.02 + 0.1 * exp (10 - 20 - 1.5) \<and>
        bv_err v ! 1 \<noteq> 0.02 + 0.1 * exp (12 - 20 - 1.5)) \<and>
   (case emp_magnitudes 5 0 [10, 12, 11, 11, 11] 0 0 (\<lambda>k. 1) [20, 20, 20, 20, 20]
           [0, 0, 0, 0, 0] [0, 0, 0, 0, 0] (\<lambda>n. 0) of
      Inl e \<Rightarrow> False
    | Inr v \<Rightarrow>
        bv_observed v \<and> bv_mag v = [10, 12, 11, 11, 11] \<and>
        bv_err v ! 1 = 0.02 + 0.1 * exp (10 - 20 - 1.5) \<and>
        bv_err v ! 1 \<noteq> 0.02 + 0.1 * exp (12 - 20 - 1.5)) \<and>
   synth_magnitudes 5 5 [10, 12, 11, 11, 11] 0 0 (\<lambda>k. 1) [20, 20, 20, 20, 20]
           [10, 12, 11, 11, 11] [0, 0, 0, 0, 0] (\<lambda>n. 0) = Inl ArrayIndex \<and>
   emp_magnitudes 5 5 [10, 12, 11, 11, 11] 0 0 (\<lambda>k. 1) [20, 20, 20, 20, 20]
           [10, 12, 11, 11, 11] [0, 0, 0, 0, 0] (\<lambda>n. 0) = Inl ArrayIndex"
proof -
  have small: "\<not> (3 / 2 < 1 / 50 + exp (- (23 / 2) :: real) / 10)"
  proof -
    have "exp (- (23 / 2) :: real) \<le> 1" by simp
    then show ?thesis by linarith
  qed
  show ?thesis
    using small
    by (simp add: synth_magnitudes_def emp_magnitudes_def band_start_def observe_bands.simps
        gsl_ran_gaussian_ziggurat_def Let_def numeral_eq_Suc)
qed

end
